theory Spec2Isabelle
  imports Complex_Main "HOL-Library.Word"
begin

section \<open>The note previewer of \<^verbatim>\<open>synth.hh\<close>\<close>

text \<open>
  A shallow embedding of \<^verbatim>\<open>struct SynthNote\<close> and \<^verbatim>\<open>class Synth\<close>.
  A C++ \<^verbatim>\<open>double\<close> or \<^verbatim>\<open>float\<close> is the real number it stands for. In the tone
  renderer, and for the time handed to the wait, every arithmetic operation is followed
  by the rounding of IEEE 754 to the nearest \<^verbatim>\<open>double\<close> or \<^verbatim>\<open>float\<close>, ties to even;
  infinities and NaN are not represented. The time arithmetic of the schedule pass
  (differences of onsets and positions) is exact. \<^verbatim>\<open>unsigned\<close>, \<^verbatim>\<open>int\<close> and \<^verbatim>\<open>short\<close>
  header fields are 32- and 16-bit words; a \<^verbatim>\<open>QByteArray\<close> is a list of 8-bit words.
\<close>

subsection \<open>Data\<close>

type_synonym byte = "8 word"

text \<open>
  \<^verbatim>\<open>struct SynthNote { int note; double begin; double length; }\<close>. The field names
  carry the prefix \<open>sn_\<close> because \<open>note\<close>, \<open>begin\<close> and \<open>length\<close> are taken.
\<close>

record SynthNote =
  sn_note :: int
  sn_begin :: real
  sn_length :: real

text \<open>
  What the worker does to the outside, in the order it happens: \<open>Play k bs\<close> is
  \<^verbatim>\<open>emit playBuffer(m_soundData[k])\<close> carrying the bytes \<open>bs\<close>; \<open>Render k\<close> records that
  \<^verbatim>\<open>createBuffer\<close> has rewritten slot \<open>k\<close>.
\<close>

datatype effect = Play int "byte list" | Render int

text \<open>
  Where the worker thread stands in \<^verbatim>\<open>run()\<close>. \<open>Idle\<close>: never started;
  \<open>Entry\<close>: started, before line 71; \<open>LoopTest\<close>: at the \<^verbatim>\<open>while\<close> test of line 72;
  \<open>Waiting\<close>: inside \<^verbatim>\<open>m_condition.wait\<close> (line 75); \<open>AfterWake\<close>: at line 78;
  \<open>Recalc\<close>: at line 79; \<open>AfterTimeout\<close>: at line 84; \<open>Onset\<close>: at line 85;
  \<open>Finished\<close>: \<^verbatim>\<open>run()\<close> has returned.
\<close>

datatype pc = Idle | Entry | LoopTest | Waiting | AfterWake | Recalc | AfterTimeout | Onset | Finished

text \<open>
  The object: the data members of \<^verbatim>\<open>class Synth\<close> under their names, the location of
  its thread, and the trace of what it has emitted and rendered so far. The array
  \<^verbatim>\<open>m_soundData[2]\<close> is a list of two byte lists, indexed by \<^verbatim>\<open>m_curBuffer\<close>. The
  mutex and the wait condition have no state of their own here: they show in the order
  of the events below.
\<close>

record Synth =
  m_notes :: "SynthNote list"
  m_delay :: real
  m_pos :: real
  m_noteBegin :: real
  m_soundData :: "byte list list"
  m_curBuffer :: int
  m_quit :: bool
  thread :: pc
  trace :: "effect list"

text \<open>The constructor value-initialises every member; the two byte arrays are empty.\<close>

definition Synth_new :: Synth where
  "Synth_new = \<lparr> m_notes = [], m_delay = 0, m_pos = 0, m_noteBegin = 0,
     m_soundData = [[], []], m_curBuffer = 0, m_quit = False, thread = Idle, trace = [] \<rparr>"

subsection \<open>C++ arithmetic\<close>

text \<open>The nearest integer, a tie going to the even one.\<close>

definition round_even :: "real \<Rightarrow> int" where
  "round_even x =
     (let f = \<lfloor>x\<rfloor>; r = x - real_of_int f
      in if r < 1/2 then f else if 1/2 < r then f + 1 else if even f then f else f + 1)"

text \<open>
  Rounding to the nearest binary floating-point number with \<open>p\<close> significant bits and
  least exponent \<open>emin\<close>: the value is scaled so that its significand has \<open>p\<close> bits
  before the point (fewer below \<open>2 powi emin\<close>, the subnormal range), rounded to an
  integer and scaled back. No largest exponent is modelled.
\<close>

definition fl_round :: "nat \<Rightarrow> int \<Rightarrow> real \<Rightarrow> real" where
  "fl_round p emin x =
     (if x = 0 then 0
      else let q = 2 powi (max \<lfloor>log 2 \<bar>x\<bar>\<rfloor> emin - int p + 1)
           in real_of_int (round_even (x / q)) * q)"

text \<open>The result of an operation on \<^verbatim>\<open>double\<close> (binary64) and on \<^verbatim>\<open>float\<close> (binary32).\<close>

definition to_double :: "real \<Rightarrow> real" where
  "to_double x = fl_round 53 (- 1022) x"

definition to_float :: "real \<Rightarrow> real" where
  "to_float x = fl_round 24 (- 126) x"

text \<open>Conversion of a floating value to an integer type discards the fraction.\<close>

definition c_trunc :: "real \<Rightarrow> int" where
  "c_trunc x = (if 0 \<le> x then \<lfloor>x\<rfloor> else \<lceil>x\<rceil>)"

text \<open>
  \<^verbatim>\<open>double\<close> to \<^verbatim>\<open>unsigned\<close> and to \<^verbatim>\<open>quint8\<close>. Out of the target's range the
  conversion is undefined in C++; the model wraps there.
\<close>

definition to_unsigned :: "real \<Rightarrow> 32 word" where
  "to_unsigned x = word_of_int (c_trunc x)"

definition to_quint8 :: "real \<Rightarrow> byte" where
  "to_quint8 x = word_of_int (c_trunc x)"

text \<open>The remainder of C++ \<^verbatim>\<open>%\<close> on \<^verbatim>\<open>int\<close> has the sign of the dividend.\<close>

definition c_rem :: "int \<Rightarrow> int \<Rightarrow> int" where
  "c_rem a b = sgn a * (\<bar>a\<bar> mod \<bar>b\<bar>)"

text \<open>\<^verbatim>\<open>#define M_PI 3.141592653589793\<close> (line 23), a literal of type \<^verbatim>\<open>double\<close>.\<close>

definition M_PI :: real where
  "M_PI = to_double (3141592653589793 / 1000000000000000)"

definition sampleRate :: int where
  "sampleRate = 8000"

text \<open>
  \<^verbatim>\<open>ULONG_MAX\<close> of \<^verbatim>\<open><climits>\<close>, here with its value for a 64-bit \<^verbatim>\<open>unsigned long\<close>.
\<close>

definition ULONG_MAX :: nat where
  "ULONG_MAX = 18446744073709551615"

subsection \<open>The header writer\<close>

text \<open>
  \<^verbatim>\<open>out.write((char*)(&tmp), n)\<close> copies the object representation of \<open>tmp\<close>; the
  model takes the host to be little-endian, as the header format requires.
\<close>

definition le16 :: "16 word \<Rightarrow> byte list" where
  "le16 w = [ucast w, ucast (drop_bit 8 w)]"

definition le32 :: "32 word \<Rightarrow> byte list" where
  "le32 w = [ucast w, ucast (drop_bit 8 w), ucast (drop_bit 16 w), ucast (drop_bit 24 w)]"

definition chars :: "string \<Rightarrow> byte list" where
  "chars s = map (\<lambda>c. of_nat (of_char c)) s"

definition writeWavHeader :: "32 word \<Rightarrow> 32 word \<Rightarrow> 32 word \<Rightarrow> 32 word \<Rightarrow> byte list" where
  "writeWavHeader bits ch sr samples =
    (let bps = ch * bits div 8;
         datasize = bps * samples;
         size = datasize + 0x2C
     in chars ''RIFF''
        @ le32 (size - 0x8)
        @ chars ''WAVEfmt ''
        @ le32 0x00000010
        @ le16 0x0001
        @ le16 (ucast ch)
        @ le32 sr
        @ le32 (bps * sr)
        @ le16 (ucast bps)
        @ le16 (ucast bits)
        @ chars ''data''
        @ le32 datasize)"

subsection \<open>The tone renderer\<close>

text \<open>
  What \<^verbatim>\<open>createBuffer\<close> calls and the sources do not hold: \<^verbatim>\<open>MusicalScale().getNoteFreq\<close>
  of \<^verbatim>\<open>notes.hh\<close>, and \<^verbatim>\<open>std::sin\<close> of the C library on \<^verbatim>\<open>double\<close>, whose rounding the
  language does not fix. Both are parameters.
\<close>

record imported =
  getNoteFreq :: "int \<Rightarrow> real"
  std_sin :: "real \<Rightarrow> real"

text \<open>
  Line 134: the sample at the given phase. The products and sums are taken in
  \<^verbatim>\<open>double\<close>, from the left, and the result is stored in a \<^verbatim>\<open>float\<close>.
\<close>

definition fvalue :: "imported \<Rightarrow> real \<Rightarrow> real \<Rightarrow> real" where
  "fvalue lib d phase =
     to_float
       (to_double
          (to_double
             (to_double (to_double (d * to_double 0.2) * std_sin lib phase)
              + to_double (to_double 0.2 * std_sin lib (to_double (2 * phase))))
           + to_double
               (to_double (to_double (1.0 - d) * to_double 0.2)
                * std_sin lib (to_double (4 * phase)))))"

text \<open>
  Line 138: the sample as a byte. The 1 is added in \<^verbatim>\<open>float\<close>, the two products are taken
  in \<^verbatim>\<open>double\<close>, and the conversion to \<^verbatim>\<open>quint8\<close> discards the fraction.
\<close>

definition sample_byte :: "imported \<Rightarrow> real \<Rightarrow> real \<Rightarrow> byte" where
  "sample_byte lib d phase =
     to_quint8 (to_double (to_double (to_float (fvalue lib d phase + 1) * 0.5) * 255))"

text \<open>
  The loop of lines 133 to 140, from index \<open>i\<close> with the running \<open>phase\<close> and the
  array \<open>buf\<close> written so far. The test compares the index with the \<^verbatim>\<open>double\<close> product
  \<^verbatim>\<open>length * sampleRate\<close>. The index is a natural number: a \<^verbatim>\<open>size_t\<close> does not wrap,
  and its conversion to \<^verbatim>\<open>double\<close> is exact, before the array has outgrown any memory.
\<close>

function synthesize :: "imported \<Rightarrow> real \<Rightarrow> real \<Rightarrow> real \<Rightarrow> nat \<Rightarrow> real \<Rightarrow> byte list \<Rightarrow> byte list" where
  "synthesize lib d freq len i phase buf =
     (if real i < to_double (len * real_of_int sampleRate)
      then synthesize lib d freq len (Suc i)
             (to_double (phase
                + to_double (to_double (to_double (2.0 * M_PI) * freq) / real_of_int sampleRate)))
             (buf @ [sample_byte lib d phase])
      else buf)"
  by pat_completeness auto
termination
proof (relation "measure (\<lambda>(lib, d, freq, len, i, phase, buf).
                   nat \<lceil>to_double (len * real_of_int sampleRate)\<rceil> - i)")
  show "wf (measure (\<lambda>(lib, d, freq, len, i, phase, buf).
                   nat \<lceil>to_double (len * real_of_int sampleRate)\<rceil> - i))"
    by simp
next
  fix lib :: imported and d freq len :: real and i :: nat and phase :: real and buf :: "byte list"
  assume "real i < to_double (len * real_of_int sampleRate)"
  then have "int i < \<lceil>to_double (len * real_of_int sampleRate)\<rceil>"
    by (simp add: less_ceiling_iff)
  then show "((lib, d, freq, len, Suc i,
                to_double (phase
                  + to_double (to_double (to_double (2.0 * M_PI) * freq) / real_of_int sampleRate)),
                buf @ [sample_byte lib d phase]), (lib, d, freq, len, i, phase, buf))
             \<in> measure (\<lambda>(lib, d, freq, len, i, phase, buf).
                   nat \<lceil>to_double (len * real_of_int sampleRate)\<rceil> - i)"
    by simp
qed

declare synthesize.simps [simp del]

text \<open>
  \<^verbatim>\<open>createBuffer(note, length)\<close>: the bytes it leaves in \<^verbatim>\<open>m_soundData[m_curBuffer]\<close>.
  The header is given \<^verbatim>\<open>length * sampleRate\<close> converted to \<^verbatim>\<open>unsigned\<close> (line 127).
\<close>

definition createBuffer_bytes :: "imported \<Rightarrow> int \<Rightarrow> real \<Rightarrow> byte list" where
  "createBuffer_bytes lib note len =
     (let header = writeWavHeader 8 1 (word_of_int sampleRate)
                     (to_unsigned (to_double (len * real_of_int sampleRate)));
          d = to_double ((real_of_int note + 1) / 13.0);
          freq = getNoteFreq lib (note + 12)
      in synthesize lib d freq len 0 0 header)"

definition createBuffer :: "imported \<Rightarrow> int \<Rightarrow> real \<Rightarrow> Synth \<Rightarrow> Synth" where
  "createBuffer lib note len s =
     s\<lparr> m_soundData := (m_soundData s)[nat (m_curBuffer s) := createBuffer_bytes lib note len],
        trace := trace s @ [Render (m_curBuffer s)] \<rparr>"

subsection \<open>The schedule pass\<close>

text \<open>Lines 106 to 109: the scan for the first note that does not begin before \<open>pos\<close>.\<close>

fun calcNext_scan :: "real \<Rightarrow> SynthNote list \<Rightarrow> SynthNote option" where
  "calcNext_scan pos [] = None"
| "calcNext_scan pos (n # ns) = (if sn_begin n < pos then calcNext_scan pos ns else Some n)"

text \<open>
  \<^verbatim>\<open>calcNext()\<close>. \<open>elapsed\<close> is what \<^verbatim>\<open>timer.elapsed()\<close> returns at line 119, in
  milliseconds.
\<close>

definition calcNext :: "imported \<Rightarrow> nat \<Rightarrow> Synth \<Rightarrow> Synth" where
  "calcNext lib elapsed s =
     (case calcNext_scan (m_pos s) (m_notes s) of
        None \<Rightarrow> s\<lparr> m_delay := real ULONG_MAX / 1000.0 \<rparr>
      | Some n \<Rightarrow>
          let s1 = s\<lparr> m_delay := sn_begin n - m_pos s \<rparr>;
              s2 = (if sn_begin n \<noteq> m_noteBegin s1
                    then createBuffer lib (c_rem (sn_note n) 12) (sn_length n)
                           (s1\<lparr> m_noteBegin := sn_begin n \<rparr>)
                    else s1);
              s3 = s2\<lparr> m_delay := m_delay s2 - real elapsed / 1000.0 \<rparr>
          in if m_delay s3 \<le> 0.001 then s3\<lparr> m_delay := 0.001 \<rparr> else s3)"

subsection \<open>The update gateway\<close>

text \<open>\<^verbatim>\<open>QThread::isRunning()\<close>: the thread has been started and \<^verbatim>\<open>run()\<close> has not returned.\<close>

definition isRunning :: "Synth \<Rightarrow> bool" where
  "isRunning s = (thread s \<noteq> Idle \<and> thread s \<noteq> Finished)"

text \<open>
  \<^verbatim>\<open>tick(pos, notes)\<close>. \<^verbatim>\<open>wakeOne()\<close> changes no member: it shows as the outcome
  \<open>Woken\<close> of the worker's wait. \<^verbatim>\<open>start()\<close> puts the thread at the entry of \<^verbatim>\<open>run()\<close>.
\<close>

definition tick :: "int \<Rightarrow> SynthNote list \<Rightarrow> Synth \<Rightarrow> Synth" where
  "tick pos notes s =
     (let s1 = s\<lparr> m_pos := real_of_int pos / 1000.0 \<rparr>;
          s2 = s1\<lparr> m_notes := notes \<rparr>
      in if isRunning s2 then s2 else s2\<lparr> thread := Entry \<rparr>)"

text \<open>\<^verbatim>\<open>stop()\<close>; its \<^verbatim>\<open>wakeOne()\<close> is again the outcome \<open>Woken\<close> of the wait.\<close>

definition stop :: "Synth \<Rightarrow> Synth" where
  "stop s = s\<lparr> m_quit := True \<rparr>"

subsection \<open>The worker\<close>

text \<open>Lines 85 to 94: what the worker does at an onset, after the test of line 84.\<close>

definition run_onset :: "imported \<Rightarrow> nat \<Rightarrow> Synth \<Rightarrow> Synth" where
  "run_onset lib elapsed s =
     (let s1 = s\<lparr> trace := trace s @ [Play (m_curBuffer s) (m_soundData s ! nat (m_curBuffer s))] \<rparr>;
          s2 = s1\<lparr> m_curBuffer := c_rem (m_curBuffer s1 + 1) 2 \<rparr>;
          s3 = s2\<lparr> m_pos := m_pos s2 + 0.2 \<rparr>;
          s4 = calcNext lib elapsed s3
      in s4\<lparr> m_delay := max (m_delay s4) 1.0 \<rparr>)"

text \<open>Line 75: the time handed to the wait, the \<^verbatim>\<open>double\<close> product before its conversion.\<close>

definition wait_time :: "Synth \<Rightarrow> real" where
  "wait_time s = to_double (m_delay s * 1000)"

text \<open>
  The conversion of a \<^verbatim>\<open>double\<close> to \<^verbatim>\<open>unsigned long\<close>, the type of the time parameter of
  \<^verbatim>\<open>QWaitCondition::wait\<close>. It discards the fraction, and it is defined only when what
  is left is a value of the type; \<open>None\<close> stands for the undefined conversion.
\<close>

definition to_unsigned_long :: "real \<Rightarrow> 64 word option" where
  "to_unsigned_long x =
     (if - 1 < x \<and> x < real ULONG_MAX + 1 then Some (word_of_int (c_trunc x)) else None)"

text \<open>
  What can happen to the object. \<open>Tick\<close> and \<open>Stop\<close> are the calls of the foreground
  thread; \<open>Woken\<close> and \<open>TimedOut\<close> are the two ways \<^verbatim>\<open>m_condition.wait\<close> returns;
  \<open>Advance e\<close> lets the worker run to its next location, \<open>e\<close> being the reading of the
  timer should the worker pass through \<^verbatim>\<open>calcNext\<close>.
\<close>

datatype event = Tick int "SynthNote list" | Stop | Woken | TimedOut | Advance nat

text \<open>
  One move of the worker in \<^verbatim>\<open>run()\<close>, from the location given. The two tests of
  \<^verbatim>\<open>m_quit\<close> after the wait are moves of their own, so that a call of the foreground
  can fall between a test and what follows it; a schedule pass is one move, and so are
  lines 85 to 94. The wait can expire from every state: it would have no time-out only
  for the time \<^verbatim>\<open>ULONG_MAX\<close>, and its time is \<open>wait_time\<close>, a \<^verbatim>\<open>double\<close>, converted to
  \<^verbatim>\<open>unsigned long\<close>; no \<^verbatim>\<open>double\<close> has the value of \<^verbatim>\<open>ULONG_MAX\<close> as it is defined
  here, and beyond it the conversion is undefined. An event that cannot happen at a
  location leaves the object as it is.
\<close>

fun run_step :: "imported \<Rightarrow> pc \<Rightarrow> event \<Rightarrow> Synth \<Rightarrow> Synth" where
  "run_step g Entry (Advance e) s = (calcNext g e s)\<lparr> thread := LoopTest \<rparr>"
| "run_step g LoopTest (Advance e) s =
     (if m_quit s then s\<lparr> thread := Finished \<rparr> else s\<lparr> thread := Waiting \<rparr>)"
| "run_step g Waiting Woken s = s\<lparr> thread := AfterWake \<rparr>"
| "run_step g Waiting TimedOut s = s\<lparr> thread := AfterTimeout \<rparr>"
| "run_step g AfterWake (Advance e) s =
     (if m_quit s then s\<lparr> thread := Finished \<rparr> else s\<lparr> thread := Recalc \<rparr>)"
| "run_step g Recalc (Advance e) s = (calcNext g e s)\<lparr> thread := LoopTest \<rparr>"
| "run_step g AfterTimeout (Advance e) s =
     (if m_quit s then s\<lparr> thread := Finished \<rparr> else s\<lparr> thread := Onset \<rparr>)"
| "run_step g Onset (Advance e) s = (run_onset g e s)\<lparr> thread := LoopTest \<rparr>"
| "run_step g l ev s = s"

text \<open>An event applied to the object, and a sequence of events applied from the left.\<close>

fun apply_event :: "imported \<Rightarrow> event \<Rightarrow> Synth \<Rightarrow> Synth" where
  "apply_event g (Tick pos notes) s = tick pos notes s"
| "apply_event g Stop s = stop s"
| "apply_event g ev s = run_step g (thread s) ev s"

definition exec :: "imported \<Rightarrow> event list \<Rightarrow> Synth \<Rightarrow> Synth" where
  "exec g evs s = fold (apply_event g) evs s"

subsection \<open>Reading the trace\<close>

text \<open>The emissions of a trace, and its renders.\<close>

fun is_Play :: "effect \<Rightarrow> bool" where
  "is_Play (Play k bs) = True"
| "is_Play (Render k) = False"

definition plays :: "effect list \<Rightarrow> effect list" where
  "plays tr = filter is_Play tr"

definition renders :: "effect list \<Rightarrow> effect list" where
  "renders tr = filter (\<lambda>e. \<not> is_Play e) tr"

subsection \<open>Reading a rendered buffer\<close>

text \<open>A little-endian field of a byte sequence, at the offset given, as a number.\<close>

definition read_le32 :: "byte list \<Rightarrow> nat \<Rightarrow> nat" where
  "read_le32 bs off = unat (bs ! off) + 256 * unat (bs ! (off + 1))
      + 65536 * unat (bs ! (off + 2)) + 16777216 * unat (bs ! (off + 3))"

definition read_le16 :: "byte list \<Rightarrow> nat \<Rightarrow> nat" where
  "read_le16 bs off = unat (bs ! off) + 256 * unat (bs ! (off + 1))"

text \<open>
  The phase increment of line 135, the phase after \<open>k\<close> turns of the loop, and the number
  of turns the loop of line 133 takes.
\<close>

definition phase_step :: "real \<Rightarrow> real" where
  "phase_step freq = to_double (to_double (to_double (2.0 * M_PI) * freq) / real_of_int sampleRate)"

definition phase_at :: "real \<Rightarrow> nat \<Rightarrow> real" where
  "phase_at freq k = ((\<lambda>ph. to_double (ph + phase_step freq)) ^^ k) 0"

definition sample_count :: "real \<Rightarrow> nat" where
  "sample_count len = nat \<lceil>to_double (len * real_of_int sampleRate)\<rceil>"

subsection \<open>Values for the examples, and the renderer as the specification words it\<close>

text \<open>
  For concrete runs: every pitch at 440 Hz, and a sine that is rounded correctly.
\<close>

definition flat_scale :: imported where
  "flat_scale = \<lparr> getNoteFreq = (\<lambda>n. 440), std_sin = (\<lambda>x. to_double (sin x)) \<rparr>"

text \<open>
  The \<open>i\<close>-th sample as the specification states it: rounded to the nearest integer
  and clamped to the range of a byte. This is not taken from the code; it is what the
  code is compared with.
\<close>

definition spec_sample :: "(int \<Rightarrow> real) \<Rightarrow> int \<Rightarrow> nat \<Rightarrow> int" where
  "spec_sample freq pitchClass i =
     (let d = (real_of_int pitchClass + 1) / 13.0;
          phase = real i * (2 * pi * freq (pitchClass + 12) / 8000);
          s = d * 0.2 * sin phase + 0.2 * sin (2 * phase) + (1 - d) * 0.2 * sin (4 * phase)
      in max 0 (min 255 (round ((s + 1) * 0.5 * 255))))"

subsection \<open>Predicates on runs\<close>

text \<open>
  A \<^verbatim>\<open>tick\<close> at position \<open>fst pe\<close> followed by the schedule pass it wakes the worker
  for, the timer reading \<open>snd pe\<close>.
\<close>

definition tick_pass :: "imported \<Rightarrow> SynthNote list \<Rightarrow> int \<times> nat \<Rightarrow> Synth \<Rightarrow> Synth" where
  "tick_pass g ns pe s = calcNext g (snd pe) (tick (fst pe) ns s)"

text \<open>
  The rotation of the two buffer slots, read off a trace. \<open>prev\<close> is the slot of the
  last emission so far. Every slot is 0 or 1; an emission does not come from the slot of
  the emission before it; a render does not write the slot of the last emission.
\<close>

fun rotation_ok :: "int option \<Rightarrow> effect list \<Rightarrow> bool" where
  "rotation_ok prev [] = True"
| "rotation_ok prev (Play k bs # tr) = ((k = 0 \<or> k = 1) \<and> prev \<noteq> Some k \<and> rotation_ok (Some k) tr)"
| "rotation_ok prev (Render k # tr) = ((k = 0 \<or> k = 1) \<and> prev \<noteq> Some k \<and> rotation_ok prev tr)"

text \<open>The slot of the last emission in a trace, \<open>prev\<close> when there is none.\<close>

fun last_played :: "int option \<Rightarrow> effect list \<Rightarrow> int option" where
  "last_played prev [] = prev"
| "last_played prev (Play k bs # tr) = last_played (Some k) tr"
| "last_played prev (Render k # tr) = last_played prev tr"

text \<open>
  The active index is 0 or 1, the trace so far rotates properly, and the active slot is
  not the one last emitted.
\<close>

definition rot_inv :: "Synth \<Rightarrow> bool" where
  "rot_inv s = ((m_curBuffer s = 0 \<or> m_curBuffer s = 1)
     \<and> rotation_ok None (trace s)
     \<and> last_played None (trace s) \<noteq> Some (m_curBuffer s))"

section \<open>Properties\<close>

subsection \<open>Rounding to a floating-point number\<close>

lemma round_even_of_int [simp]: "round_even (real_of_int n) = n"
  by (simp add: round_even_def)

lemma round_even_bounds: "real_of_int (round_even x) - 1/2 \<le> x \<and> x \<le> real_of_int (round_even x) + 1/2"
  unfolding round_even_def Let_def by (auto; linarith)

lemma round_even_mono: "x \<le> y \<Longrightarrow> round_even x \<le> round_even y"
proof -
  assume le: "x \<le> y"
  have fm: "\<lfloor>x\<rfloor> \<le> \<lfloor>y\<rfloor>" using le by (rule floor_mono)
  show ?thesis
  proof (cases "\<lfloor>x\<rfloor> = \<lfloor>y\<rfloor>")
    case True
    with le show ?thesis
      unfolding round_even_def Let_def by auto
  next
    case False
    with fm have "\<lfloor>x\<rfloor> + 1 \<le> \<lfloor>y\<rfloor>" by simp
    moreover have "round_even x \<le> \<lfloor>x\<rfloor> + 1"
      unfolding round_even_def Let_def by auto
    moreover have "\<lfloor>y\<rfloor> \<le> round_even y"
      unfolding round_even_def Let_def by auto
    ultimately show ?thesis by linarith
  qed
qed

lemma round_even_minus: "round_even (- x) = - round_even x"
proof (cases "x = real_of_int \<lfloor>x\<rfloor>")
  case True
  then have "round_even x = \<lfloor>x\<rfloor>"
    by (metis round_even_of_int)
  moreover from True have "- x = real_of_int (- \<lfloor>x\<rfloor>)" by simp
  then have "round_even (- x) = - \<lfloor>x\<rfloor>"
    by (metis round_even_of_int)
  ultimately show ?thesis by simp
next
  case False
  then have "real_of_int \<lfloor>x\<rfloor> \<noteq> x" by (rule not_sym)
  then have lt: "real_of_int \<lfloor>x\<rfloor> < x"
    using of_int_floor_le [of x] by (rule order.not_eq_order_implies_strict)
  have up: "x < real_of_int \<lfloor>x\<rfloor> + 1" by linarith
  have "real_of_int (- \<lfloor>x\<rfloor> - 1) \<le> - x" using up by simp linarith
  moreover have "- x < real_of_int (- \<lfloor>x\<rfloor> - 1) + 1" using lt by simp
  ultimately have fl: "\<lfloor>- x\<rfloor> = - \<lfloor>x\<rfloor> - 1"
    by (rule floor_unique)
  have ev: "even (- \<lfloor>x\<rfloor> - 1) = (\<not> even \<lfloor>x\<rfloor>)" by simp
  show ?thesis
    unfolding round_even_def Let_def fl ev by (auto; linarith)
qed


lemma round_even_le: "x \<le> real_of_int n \<Longrightarrow> round_even x \<le> n"
  using round_even_mono [of x "real_of_int n"] by simp

lemma round_even_ge: "real_of_int n \<le> x \<Longrightarrow> n \<le> round_even x"
  using round_even_mono [of "real_of_int n" x] by simp

lemma powr_powi: "(2::real) powr real_of_int e = 2 powi e"
proof (cases "0 \<le> e")
  case True
  then show ?thesis by (simp add: powr_real_of_int power_int_def)
next
  case False
  then show ?thesis
    by (simp add: powr_real_of_int power_int_def power_one_over inverse_eq_divide)
qed

lemma floor_log2_eq:
  assumes "2 powi e \<le> x" and "x < 2 powi (e + 1)"
  shows "\<lfloor>log 2 x\<rfloor> = e"
proof -
  have pos: "0 < x" using assms(1) zero_less_power_int [of "2::real" e] by linarith
  have a: "(2::real) powr real_of_int e = 2 powi e"
    by (rule powr_powi)
  have b: "(2::real) powr (real_of_int e + 1) = 2 powi (e + 1)"
    using powr_powi [of "e + 1"] by simp
  have "2 powr real_of_int e \<le> x \<and> x < 2 powr (real_of_int e + 1)"
    using assms by (simp only: a b)
  then show ?thesis
    using floor_log_eq_powr_iff [of x 2 e] pos by simp
qed

lemma floor_log2_bounds:
  assumes "0 < x"
  shows "2 powi \<lfloor>log 2 x\<rfloor> \<le> x \<and> x < 2 powi (\<lfloor>log 2 x\<rfloor> + 1)"
proof -
  from floor_log_eq_powr_iff [of x 2 "\<lfloor>log 2 x\<rfloor>"] assms
  have "2 powr real_of_int \<lfloor>log 2 x\<rfloor> \<le> x \<and> x < 2 powr (real_of_int \<lfloor>log 2 x\<rfloor> + 1)"
    by simp
  moreover have "(2::real) powr (real_of_int \<lfloor>log 2 x\<rfloor> + 1) = 2 powi (\<lfloor>log 2 x\<rfloor> + 1)"
    using powr_powi [of "\<lfloor>log 2 x\<rfloor> + 1"] by simp
  ultimately show ?thesis
    by (simp only: powr_powi)
qed

lemma fl_round_eval:
  assumes "2 powi e \<le> \<bar>x\<bar>" and "\<bar>x\<bar> < 2 powi (e + 1)" and "emin \<le> e"
  shows "fl_round p emin x
           = real_of_int (round_even (x / 2 powi (e - int p + 1))) * 2 powi (e - int p + 1)"
proof -
  have "0 < \<bar>x\<bar>" using assms(1) zero_less_power_int [of "2::real" e] by linarith
  then have nz: "x \<noteq> 0" by simp
  have "\<lfloor>log 2 \<bar>x\<bar>\<rfloor> = e" using assms(1,2) by (rule floor_log2_eq)
  then have "max \<lfloor>log 2 \<bar>x\<bar>\<rfloor> emin = e" using assms(3) by simp
  then show ?thesis using nz by (simp add: fl_round_def Let_def)
qed

lemma fl_round_0 [simp]: "fl_round p emin 0 = 0"
  by (simp add: fl_round_def)

lemma fl_round_minus: "fl_round p emin (- x) = - fl_round p emin x"
  by (simp add: fl_round_def Let_def round_even_minus)

lemma fl_round_pos_unfold:
  assumes "0 < x"
  shows "fl_round p emin x
           = real_of_int (round_even (x / 2 powi (max \<lfloor>log 2 x\<rfloor> emin - int p + 1)))
               * 2 powi (max \<lfloor>log 2 x\<rfloor> emin - int p + 1)"
  using assms by (simp add: fl_round_def Let_def)

lemma fl_round_nonneg: "0 \<le> x \<Longrightarrow> 0 \<le> fl_round p emin x"
proof (cases "x = 0")
  case True
  then show ?thesis by simp
next
  case False
  assume "0 \<le> x"
  with False have pos: "0 < x" by simp
  define q :: real where "q = 2 powi (max \<lfloor>log 2 x\<rfloor> emin - int p + 1)"
  have q: "0 < q" by (simp add: q_def)
  have "real_of_int 0 \<le> x / q" using pos q by simp
  then have "0 \<le> round_even (x / q)" by (rule round_even_ge)
  then have "0 \<le> real_of_int (round_even (x / q)) * q" using q by simp
  then show ?thesis
    unfolding fl_round_pos_unfold [OF pos] q_def .
qed

lemma fl_round_upper:
  assumes "0 < x"
  shows "fl_round p emin x \<le> 2 powi (max \<lfloor>log 2 x\<rfloor> emin + 1)"
proof -
  define E where "E = max \<lfloor>log 2 x\<rfloor> emin"
  define q :: real where "q = 2 powi (E - int p + 1)"
  have q: "0 < q" by (simp add: q_def)
  have "x < 2 powi (\<lfloor>log 2 x\<rfloor> + 1)" using floor_log2_bounds [OF assms] by simp
  also have "\<dots> \<le> 2 powi (E + 1)"
    by (rule power_int_increasing) (simp_all add: E_def)
  finally have x: "x < 2 powi (E + 1)" .
  have pq: "2 powi (E + 1) = 2 ^ p * q"
  proof -
    have "(2::real) powi (E + 1) = 2 powi (int p + (E - int p + 1))" by simp
    also have "\<dots> = 2 powi int p * 2 powi (E - int p + 1)"
      by (rule power_int_add) simp
    finally show ?thesis by (simp add: q_def)
  qed
  have "x / q \<le> 2 ^ p" using x q by (simp add: pq field_simps)
  then have "x / q \<le> real_of_int (2 ^ p)" by simp
  then have "round_even (x / q) \<le> 2 ^ p" by (rule round_even_le)
  then have "real_of_int (round_even (x / q)) \<le> 2 ^ p"
    by (metis of_int_le_iff of_int_numeral of_int_power)
  then have "real_of_int (round_even (x / q)) * q \<le> 2 ^ p * q"
    using q by simp
  then show ?thesis
    unfolding fl_round_pos_unfold [OF assms] E_def [symmetric] q_def [symmetric] pq .
qed

lemma fl_round_lower:
  assumes "0 < x" and "emin \<le> \<lfloor>log 2 x\<rfloor>" and "0 < p"
  shows "2 powi \<lfloor>log 2 x\<rfloor> \<le> fl_round p emin x"
proof -
  define e where "e = \<lfloor>log 2 x\<rfloor>"
  define q :: real where "q = 2 powi (e - int p + 1)"
  have q: "0 < q" by (simp add: q_def)
  have E: "max \<lfloor>log 2 x\<rfloor> emin = e" using assms(2) by (simp add: e_def)
  have x: "2 powi e \<le> x" using floor_log2_bounds [OF assms(1)] by (simp add: e_def)
  have pq: "2 powi e = 2 ^ (p - 1) * q"
  proof -
    have "(2::real) powi e = 2 powi (int (p - 1) + (e - int p + 1))"
      using assms(3) by (simp add: of_nat_diff)
    also have "\<dots> = 2 powi int (p - 1) * 2 powi (e - int p + 1)"
      by (rule power_int_add) simp
    finally show ?thesis by (simp add: q_def)
  qed
  have "2 ^ (p - 1) \<le> x / q" using x q by (simp add: pq field_simps)
  then have "real_of_int (2 ^ (p - 1)) \<le> x / q" by simp
  then have "2 ^ (p - 1) \<le> round_even (x / q)" by (rule round_even_ge)
  then have "2 ^ (p - 1) \<le> real_of_int (round_even (x / q))"
    by (metis of_int_le_iff of_int_numeral of_int_power)
  then have "2 ^ (p - 1) * q \<le> real_of_int (round_even (x / q)) * q"
    using q by simp
  moreover have "fl_round p emin x = real_of_int (round_even (x / q)) * q"
    unfolding fl_round_pos_unfold [OF assms(1)] E q_def ..
  ultimately show ?thesis
    by (simp only: pq e_def [symmetric])
qed

lemma fl_round_mono_pos:
  assumes "0 < x" and "x \<le> y" and "0 < p"
  shows "fl_round p emin x \<le> fl_round p emin y"
proof -
  have y: "0 < y" using assms(1,2) by simp
  have "log 2 x \<le> log 2 y" using assms(1,2) by simp
  then have ee: "\<lfloor>log 2 x\<rfloor> \<le> \<lfloor>log 2 y\<rfloor>" by (rule floor_mono)
  show ?thesis
  proof (cases "max \<lfloor>log 2 x\<rfloor> emin = max \<lfloor>log 2 y\<rfloor> emin")
    case True
    define q :: real where "q = 2 powi (max \<lfloor>log 2 y\<rfloor> emin - int p + 1)"
    have q: "0 < q" by (simp add: q_def)
    have "x / q \<le> y / q" using assms(2) q by (simp add: divide_right_mono)
    then have "round_even (x / q) \<le> round_even (y / q)" by (rule round_even_mono)
    then have "real_of_int (round_even (x / q)) * q \<le> real_of_int (round_even (y / q)) * q"
      using q by simp
    then show ?thesis
      unfolding fl_round_pos_unfold [OF assms(1)] fl_round_pos_unfold [OF y] True q_def [symmetric] .
  next
    case False
    with ee have lt: "max \<lfloor>log 2 x\<rfloor> emin < \<lfloor>log 2 y\<rfloor>" and n: "emin \<le> \<lfloor>log 2 y\<rfloor>"
      by auto
    have "fl_round p emin x \<le> 2 powi (max \<lfloor>log 2 x\<rfloor> emin + 1)"
      using assms(1) by (rule fl_round_upper)
    also have "\<dots> \<le> 2 powi \<lfloor>log 2 y\<rfloor>"
    proof (rule power_int_increasing)
      show "max \<lfloor>log 2 x\<rfloor> emin + 1 \<le> \<lfloor>log 2 y\<rfloor>" using lt by linarith
      show "(1::real) \<le> 2" by simp
    qed
    also have "\<dots> \<le> fl_round p emin y"
      using y n assms(3) by (rule fl_round_lower)
    finally show ?thesis .
  qed
qed

lemma fl_round_mono:
  assumes "x \<le> y" and "0 < p"
  shows "fl_round p emin x \<le> fl_round p emin y"
proof -
  consider "0 < x" | "x \<le> 0" "0 \<le> y" | "y < 0" by linarith
  then show ?thesis
  proof cases
    case 1
    then show ?thesis using assms by (rule fl_round_mono_pos)
  next
    case 2
    have "0 \<le> fl_round p emin (- x)" using 2(1) by (intro fl_round_nonneg) simp
    then have "fl_round p emin x \<le> 0" by (simp add: fl_round_minus)
    also have "0 \<le> fl_round p emin y" using 2(2) by (rule fl_round_nonneg)
    finally show ?thesis .
  next
    case 3
    then have "0 < - y" "- y \<le> - x" using assms(1) by simp_all
    then have "fl_round p emin (- y) \<le> fl_round p emin (- x)"
      using assms(2) by (rule fl_round_mono_pos)
    then show ?thesis by (simp add: fl_round_minus)
  qed
qed

lemma fl_round_exact:
  assumes "2 powi e \<le> \<bar>x\<bar>" and "\<bar>x\<bar> < 2 powi (e + 1)" and "emin \<le> e"
    and "x / 2 powi (e - int p + 1) = real_of_int n"
  shows "fl_round p emin x = x"
proof -
  have "fl_round p emin x
          = real_of_int (round_even (x / 2 powi (e - int p + 1))) * 2 powi (e - int p + 1)"
    using assms(1,2,3) by (rule fl_round_eval)
  also have "\<dots> = x / 2 powi (e - int p + 1) * 2 powi (e - int p + 1)"
    by (simp only: assms(4) round_even_of_int)
  also have "\<dots> = x" by simp
  finally show ?thesis .
qed

lemma fl_round_le: "x \<le> b \<Longrightarrow> fl_round p emin b = b \<Longrightarrow> 0 < p \<Longrightarrow> fl_round p emin x \<le> b"
  using fl_round_mono [of x b p emin] by simp

lemma fl_round_ge: "b \<le> x \<Longrightarrow> fl_round p emin b = b \<Longrightarrow> 0 < p \<Longrightarrow> b \<le> fl_round p emin x"
  using fl_round_mono [of b x p emin] by simp

lemma fl_round_abs_le:
  assumes "\<bar>x\<bar> \<le> b" and "fl_round p emin b = b" and "0 < p"
  shows "\<bar>fl_round p emin x\<bar> \<le> b"
proof -
  have "fl_round p emin (- b) = - b" by (simp add: fl_round_minus assms(2))
  moreover have "- b \<le> x" "x \<le> b" using assms(1) by simp_all
  ultimately have "- b \<le> fl_round p emin x" "fl_round p emin x \<le> b"
    using assms(2,3) by (simp_all add: fl_round_le fl_round_ge)
  then show ?thesis by simp
qed

lemma fl_round_error:
  assumes "x \<noteq> 0"
  shows "\<bar>fl_round p emin x - x\<bar> \<le> 2 powi (max \<lfloor>log 2 \<bar>x\<bar>\<rfloor> emin - int p + 1) / 2"
proof -
  define q :: real where "q = 2 powi (max \<lfloor>log 2 \<bar>x\<bar>\<rfloor> emin - int p + 1)"
  have q: "0 < q" by (simp add: q_def)
  have f: "fl_round p emin x = real_of_int (round_even (x / q)) * q"
    using assms by (simp add: fl_round_def Let_def q_def)
  from round_even_bounds [of "x / q"]
  have "\<bar>real_of_int (round_even (x / q)) - x / q\<bar> \<le> 1 / 2" by linarith
  then have "\<bar>real_of_int (round_even (x / q)) - x / q\<bar> * q \<le> 1 / 2 * q"
    using q by (intro mult_right_mono) simp_all
  moreover have "\<bar>real_of_int (round_even (x / q)) - x / q\<bar> * q
                   = \<bar>real_of_int (round_even (x / q)) * q - x\<bar>"
  proof -
    have "\<bar>real_of_int (round_even (x / q)) - x / q\<bar> * q
            = \<bar>(real_of_int (round_even (x / q)) - x / q) * q\<bar>"
      using q by (simp add: abs_mult)
    also have "(real_of_int (round_even (x / q)) - x / q) * q
                 = real_of_int (round_even (x / q)) * q - x"
      using q by (simp add: algebra_simps)
    finally show ?thesis .
  qed
  ultimately show ?thesis unfolding f q_def [symmetric] by simp
qed

lemma to_double_values:
  shows "to_double 1 = 1"
    and "to_double (1/2) = 1/2"
    and "to_double (1/4) = 1/4"
    and "to_double (3/4) = 3/4"
    and "to_double (1/8) = 1/8"
    and "to_double (7/8) = 7/8"
    and "to_double (255/8) = 255/8"
    and "to_double (1785/8) = 1785/8"
    and "to_double (255/2) = 255/2"
    and "to_double 4000 = 4000"
proof -
  show "to_double 1 = 1"
    unfolding to_double_def by (rule fl_round_exact [where e = "0" and n = "2 ^ 52"]) simp_all
  show "to_double (1/2) = 1/2"
    unfolding to_double_def by (rule fl_round_exact [where e = "- 1" and n = "2 ^ 52"]) simp_all
  show "to_double (1/4) = 1/4"
    unfolding to_double_def by (rule fl_round_exact [where e = "- 2" and n = "2 ^ 52"]) simp_all
  show "to_double (3/4) = 3/4"
    unfolding to_double_def by (rule fl_round_exact [where e = "- 1" and n = "3 * 2 ^ 51"]) simp_all
  show "to_double (1/8) = 1/8"
    unfolding to_double_def by (rule fl_round_exact [where e = "- 3" and n = "2 ^ 52"]) simp_all
  show "to_double (7/8) = 7/8"
    unfolding to_double_def by (rule fl_round_exact [where e = "- 1" and n = "7 * 2 ^ 50"]) simp_all
  show "to_double (255/8) = 255/8"
    unfolding to_double_def by (rule fl_round_exact [where e = "4" and n = "255 * 2 ^ 45"]) simp_all
  show "to_double (1785/8) = 1785/8"
    unfolding to_double_def by (rule fl_round_exact [where e = "7" and n = "1785 * 2 ^ 42"]) simp_all
  show "to_double (255/2) = 255/2"
    unfolding to_double_def by (rule fl_round_exact [where e = "6" and n = "255 * 2 ^ 45"]) simp_all
  show "to_double 4000 = 4000"
    unfolding to_double_def by (rule fl_round_exact [where e = "11" and n = "125 * 2 ^ 46"]) simp_all
qed

lemma to_float_values:
  shows "to_float 1 = 1"
    and "to_float (1/4) = 1/4"
    and "to_float (3/4) = 3/4"
    and "to_float (7/4) = 7/4"
proof -
  show "to_float 1 = 1"
    unfolding to_float_def by (rule fl_round_exact [where e = "0" and n = "2 ^ 23"]) simp_all
  show "to_float (1/4) = 1/4"
    unfolding to_float_def by (rule fl_round_exact [where e = "- 2" and n = "2 ^ 23"]) simp_all
  show "to_float (3/4) = 3/4"
    unfolding to_float_def by (rule fl_round_exact [where e = "- 1" and n = "3 * 2 ^ 22"]) simp_all
  show "to_float (7/4) = 7/4"
    unfolding to_float_def by (rule fl_round_exact [where e = "0" and n = "7 * 2 ^ 21"]) simp_all
qed

lemma to_double_eval:
  assumes "2 powi e \<le> \<bar>x\<bar>" and "\<bar>x\<bar> < 2 powi (e + 1)" and "- 1022 \<le> e"
  shows "to_double x = real_of_int (round_even (x / 2 powi (e - 52))) * 2 powi (e - 52)"
  using fl_round_eval [OF assms, of 53] by (simp add: to_double_def)

text \<open>
  The literals \<^verbatim>\<open>0.1\<close> and \<^verbatim>\<open>0.3333\<close> as \<^verbatim>\<open>double\<close>, and their products with 8000 as the
  code takes them.
\<close>

lemma to_double_tenth: "to_double (1/10) = 3602879701896397 / 36028797018963968"
proof -
  have "to_double (1/10)
          = real_of_int (round_even ((1/10) / 2 powi (- 4 - 52))) * 2 powi (- 4 - 52)"
    by (rule to_double_eval) simp_all
  also have "\<dots> = 3602879701896397 / 36028797018963968"
    by (simp add: round_even_def)
  finally show ?thesis .
qed

lemma to_double_tenth_count: "to_double (to_double (1/10) * 8000) = 800"
proof -
  have "to_double (3602879701896397 / 36028797018963968 * 8000)
          = real_of_int (round_even ((3602879701896397 / 36028797018963968 * 8000) / 2 powi (9 - 52)))
              * 2 powi (9 - 52)"
    by (rule to_double_eval) simp_all
  also have "\<dots> = 800"
    by (simp add: round_even_def)
  finally show ?thesis by (simp only: to_double_tenth)
qed

lemma to_double_third: "to_double (3333/10000) = 6004199023210345 / 18014398509481984"
proof -
  have "to_double (3333/10000)
          = real_of_int (round_even ((3333/10000) / 2 powi (- 2 - 52))) * 2 powi (- 2 - 52)"
    by (rule to_double_eval) simp_all
  also have "\<dots> = 6004199023210345 / 18014398509481984"
    by (simp add: round_even_def)
  finally show ?thesis .
qed

lemma to_double_third_count:
  "to_double (to_double (3333/10000) * 8000) = 5863475608603853 / 2199023255552"
proof -
  have "to_double (6004199023210345 / 18014398509481984 * 8000)
          = real_of_int (round_even ((6004199023210345 / 18014398509481984 * 8000) / 2 powi (11 - 52)))
              * 2 powi (11 - 52)"
    by (rule to_double_eval) simp_all
  also have "\<dots> = 5863475608603853 / 2199023255552"
    by (simp add: round_even_def)
  finally show ?thesis by (simp only: to_double_third)
qed

text \<open>
  \<^verbatim>\<open>ULONG_MAX\<close> as a \<^verbatim>\<open>double\<close>, its quotient by 1000 and the product of that with 1000.
\<close>

lemma to_double_ULONG_MAX: "to_double (real ULONG_MAX) = 2 ^ 64"
proof -
  have "to_double 18446744073709551615
          = real_of_int (round_even (18446744073709551615 / 2 powi (63 - 52))) * 2 powi (63 - 52)"
    by (rule to_double_eval) simp_all
  also have "\<dots> = 2 ^ 64"
    by (simp add: round_even_def)
  finally show ?thesis by (simp add: ULONG_MAX_def)
qed

lemma to_double_sentinel: "to_double (2 ^ 64 / 1000) = 18446744073709552"
proof -
  have "to_double (18446744073709551616 / 1000)
          = real_of_int (round_even ((18446744073709551616 / 1000) / 2 powi (54 - 52))) * 2 powi (54 - 52)"
    by (rule to_double_eval) simp_all
  also have "\<dots> = 18446744073709552"
    by (simp add: round_even_def)
  finally show ?thesis by simp
qed

lemma to_double_sentinel_ms: "to_double (18446744073709552 * 1000) = 2 ^ 64"
proof -
  have "to_double 18446744073709552000
          = real_of_int (round_even (18446744073709552000 / 2 powi (64 - 52))) * 2 powi (64 - 52)"
    by (rule to_double_eval) simp_all
  also have "\<dots> = 2 ^ 64"
    by (simp add: round_even_def)
  finally show ?thesis by simp
qed

lemma to_double_2_32: "to_double (2 ^ 32) = 2 ^ 32"
  unfolding to_double_def
  by (rule fl_round_exact [where e = 32 and n = "2 ^ 52"]) simp_all

lemma to_double_minus: "to_double (- x) = - to_double x"
  unfolding to_double_def by (rule fl_round_minus)

lemma to_double_mono: "x \<le> y \<Longrightarrow> to_double x \<le> to_double y"
  unfolding to_double_def by (rule fl_round_mono) simp_all

text \<open>A product that rounds to a whole number below \<open>2\<^sup>3\<^sup>2\<close> is within a half of it.\<close>

lemma to_double_whole_round:
  assumes "to_double x = real k" and "k < 2 ^ 32"
  shows "round x = int k"
proof (cases "x = 0")
  case True
  with assms(1) show ?thesis by (simp add: to_double_def)
next
  case False
  have k: "real k < 2 ^ 32" using assms(2) by (metis of_nat_less_iff of_nat_numeral of_nat_power)
  have up: "x < 2 ^ 32"
  proof (rule ccontr)
    assume "\<not> x < 2 ^ 32"
    then have "to_double (2 ^ 32) \<le> to_double x" by (intro to_double_mono) simp
    with k assms(1) to_double_2_32 show False by simp
  qed
  have lo: "- (2 ^ 32) < x"
  proof (rule ccontr)
    assume "\<not> - (2 ^ 32) < x"
    then have "to_double x \<le> to_double (- (2 ^ 32))" by (intro to_double_mono) simp
    then have "to_double x \<le> - (2 ^ 32)" by (simp only: to_double_minus to_double_2_32)
    with assms(1) show False by simp
  qed
  from up lo have ax: "\<bar>x\<bar> < 2 powi 32" by simp
  have pos: "0 < \<bar>x\<bar>" using False by simp
  have "\<lfloor>log 2 \<bar>x\<bar>\<rfloor> < 32"
  proof (rule ccontr)
    assume "\<not> \<lfloor>log 2 \<bar>x\<bar>\<rfloor> < 32"
    then have "(2::real) powi 32 \<le> 2 powi \<lfloor>log 2 \<bar>x\<bar>\<rfloor>"
      by (intro power_int_increasing) simp_all
    with floor_log2_bounds [OF pos] ax show False by linarith
  qed
  then have "max \<lfloor>log 2 \<bar>x\<bar>\<rfloor> (- 1022) - int 53 + 1 \<le> - 21" by simp
  then have "(2::real) powi (max \<lfloor>log 2 \<bar>x\<bar>\<rfloor> (- 1022) - int 53 + 1) \<le> 2 powi (- 21)"
    by (intro power_int_increasing) simp_all
  also have "\<dots> < 1" by (simp add: power_int_minus)
  finally have "2 powi (max \<lfloor>log 2 \<bar>x\<bar>\<rfloor> (- 1022) - int 53 + 1) / 2 < (1/2 :: real)" by simp
  with fl_round_error [OF False, of 53 "- 1022"] assms(1)
  have d: "\<bar>real k - x\<bar> < 1/2" by (simp add: to_double_def)
  have "real k \<le> x + 1/2" using d by linarith
  then have a: "real_of_int (int k) \<le> x + 1/2" by simp
  have "x + 1/2 < real k + 1" using d by linarith
  then have b: "x + 1/2 < real_of_int (int k) + 1" by simp
  from a b have "\<lfloor>x + 1/2\<rfloor> = int k" by (rule floor_unique)
  then show ?thesis by (simp add: round_def)
qed


lemma to_double_zero: "to_double 0 = 0"
  by (simp add: to_double_def)

lemma to_float_zero: "to_float 0 = 0"
  by (simp add: to_float_def)

subsection \<open>The header writer and the renderer\<close>

lemma length_le32 [simp]: "length (le32 w) = 4"
  by (simp add: le32_def)

lemma length_le16 [simp]: "length (le16 w) = 2"
  by (simp add: le16_def)

lemma unat_byte0: "unat (ucast (w :: 32 word) :: byte) = unat w mod 256"
  by (simp add: unsigned_ucast_eq take_bit_eq_mod)

lemma unat_byteN: "unat (ucast (drop_bit n (w :: 32 word)) :: byte) = (unat w div 2 ^ n) mod 256"
proof -
  have "unat (drop_bit n w) = unat w div 2 ^ n"
    unfolding unat_drop_bit_eq by (rule drop_bit_eq_div)
  then show ?thesis
    by (simp only: unsigned_ucast_eq take_bit_eq_mod) simp
qed

lemma bytes_sum:
  fixes x :: nat
  assumes "x < 4294967296"
  shows "x mod 256 + 256 * (x div 256 mod 256) + 65536 * (x div 65536 mod 256)
          + 16777216 * (x div 16777216 mod 256) = x"
proof -
  have a: "x mod 256 + 256 * (x div 256 mod 256) = x mod 65536"
    using mod_mult2_eq [of x 256 256] by simp
  have b: "x mod 65536 + 65536 * (x div 65536 mod 256) = x mod 16777216"
    using mod_mult2_eq [of x 65536 256] by simp
  have c: "x mod 16777216 + 16777216 * (x div 16777216 mod 256) = x mod 4294967296"
    using mod_mult2_eq [of x 16777216 256] by simp
  have "x mod 256 + 256 * (x div 256 mod 256) + 65536 * (x div 65536 mod 256)
          + 16777216 * (x div 16777216 mod 256) = x mod 4294967296"
    by (simp only: a b c)
  also have "\<dots> = x"
    using assms by (rule mod_less)
  finally show ?thesis .
qed

lemma read_le32_le32: "read_le32 (le32 w @ bs) 0 = unat w"
proof -
  have lt: "unat w < 4294967296" using unsigned_less [of w, where 'a = nat] by simp
  have "read_le32 (le32 w @ bs) 0 = unat (ucast w :: byte) + 256 * unat (ucast (drop_bit 8 w) :: byte)
      + 65536 * unat (ucast (drop_bit 16 w) :: byte) + 16777216 * unat (ucast (drop_bit 24 w) :: byte)"
    by (simp add: read_le32_def le32_def del: unsigned_ucast_eq)
  also have "\<dots> = unat w mod 256 + 256 * (unat w div 256 mod 256) + 65536 * (unat w div 65536 mod 256)
          + 16777216 * (unat w div 16777216 mod 256)"
    using unat_byteN [of 8 w] unat_byteN [of 16 w] unat_byteN [of 24 w]
    by (simp only: unat_byte0) simp
  also have "\<dots> = unat w"
    by (rule bytes_sum [OF lt])
  finally show ?thesis .
qed

lemma writeWavHeader_8_1:
  "writeWavHeader 8 1 8000 n =
     chars ''RIFF'' @ le32 (n + 36) @ chars ''WAVEfmt '' @ le32 16 @ le16 1 @ le16 1
     @ le32 8000 @ le32 8000 @ le16 1 @ le16 8 @ chars ''data'' @ le32 n"
  by (simp add: writeWavHeader_def Let_def add.commute [of 36 n])

lemma length_chars [simp]: "length (chars s) = length s"
  by (simp add: chars_def)

lemma length_writeWavHeader [simp]: "length (writeWavHeader bits ch sr n) = 44"
  unfolding writeWavHeader_def Let_def by simp


lemma sample_count_less:
  "(real i < to_double (len * real_of_int sampleRate)) = (i < sample_count len)"
proof -
  have "(real i < to_double (len * real_of_int sampleRate))
          = (int i < \<lceil>to_double (len * real_of_int sampleRate)\<rceil>)"
    by (simp add: less_ceiling_iff)
  then show ?thesis by (simp only: sample_count_def zless_nat_eq_int_zless)
qed

lemma synthesize_closed:
  "synthesize lib d freq len i phase buf =
     buf @ map (\<lambda>k. sample_byte lib d (((\<lambda>ph. to_double (ph + phase_step freq)) ^^ k) phase))
             [0..<sample_count len - i]"
proof (induction lib d freq len i phase buf rule: synthesize.induct)
  case (1 lib d freq len i phase buf)
  define f where "f = (\<lambda>ph. to_double (ph + phase_step freq))"
  have st: "to_double (phase
              + to_double (to_double (to_double (2.0 * M_PI) * freq) / real_of_int sampleRate))
            = f phase"
    by (simp add: f_def phase_step_def)
  show ?case
  proof (cases "real i < to_double (len * real_of_int sampleRate)")
    case True
    then have lt: "i < sample_count len" by (simp only: sample_count_less)
    then have cnt: "sample_count len - i = Suc (sample_count len - Suc i)" by simp
    have "synthesize lib d freq len i phase buf =
            synthesize lib d freq len (Suc i)
              (to_double (phase
                 + to_double (to_double (to_double (2.0 * M_PI) * freq) / real_of_int sampleRate)))
              (buf @ [sample_byte lib d phase])"
      using True by (subst synthesize.simps) simp
    also have "\<dots> = (buf @ [sample_byte lib d phase])
         @ map (\<lambda>k. sample_byte lib d ((f ^^ k) (f phase))) [0..<sample_count len - Suc i]"
      using "1.IH" [OF True] by (simp add: f_def phase_step_def)
    also have "\<dots> = buf @ map (\<lambda>k. sample_byte lib d ((f ^^ k) phase))
                              [0..<Suc (sample_count len - Suc i)]"
    proof -
      have "\<And>k. (f ^^ k) (f phase) = (f ^^ Suc k) phase"
        by (simp add: funpow_swap1)
      then show ?thesis
        by (simp only: map_upt_Suc) simp
    qed
    finally show ?thesis unfolding cnt f_def .
  next
    case False
    then have "sample_count len - i = 0" by (simp add: sample_count_less)
    moreover have "synthesize lib d freq len i phase buf = buf"
      using False by (simp add: synthesize.simps)
    ultimately show ?thesis by simp
  qed
qed

lemma createBuffer_bytes_closed:
  "createBuffer_bytes lib p len =
     writeWavHeader 8 1 8000 (to_unsigned (to_double (len * real_of_int sampleRate)))
     @ map (\<lambda>k. sample_byte lib (to_double ((real_of_int p + 1) / 13))
                   (phase_at (getNoteFreq lib (p + 12)) k))
         [0..<sample_count len]"
  by (simp add: createBuffer_bytes_def Let_def synthesize_closed sampleRate_def phase_at_def)

lemma length_createBuffer_bytes:
  "length (createBuffer_bytes lib p len) = 44 + sample_count len"
  by (simp add: createBuffer_bytes_closed)

lemma read_le32_at:
  "length xs = off \<Longrightarrow> read_le32 (xs @ le32 w @ ys) off = unat w"
proof -
  assume "length xs = off"
  moreover have "read_le32 (xs @ bs) (length xs) = read_le32 bs 0" for bs
    by (simp add: read_le32_def nth_append numeral_2_eq_2 numeral_3_eq_3)
  ultimately have "read_le32 (xs @ le32 w @ ys) off = read_le32 (le32 w @ ys) 0"
    by blast
  then show ?thesis by (simp only: read_le32_le32)
qed

lemma read_le16_at:
  "length xs = off \<Longrightarrow> read_le16 (xs @ le16 w @ ys) off = unat w"
proof -
  assume len: "length xs = off"
  have lt: "unat w < 65536" using unsigned_less [of w, where 'a = nat] by simp
  have b0: "unat (ucast w :: byte) = unat w mod 256"
    by (simp add: unsigned_ucast_eq take_bit_eq_mod)
  have "unat (drop_bit 8 w) = unat w div 2 ^ 8"
    unfolding unat_drop_bit_eq by (rule drop_bit_eq_div)
  then have b1: "unat (ucast (drop_bit 8 w) :: byte) = unat w div 256 mod 256"
    by (simp only: unsigned_ucast_eq take_bit_eq_mod) simp
  have "read_le16 (xs @ le16 w @ ys) off
          = unat (ucast w :: byte) + 256 * unat (ucast (drop_bit 8 w) :: byte)"
    using len by (simp add: read_le16_def le16_def nth_append del: unsigned_ucast_eq)
  also have "\<dots> = unat w mod 256 + 256 * (unat w div 256 mod 256)"
    by (simp only: b0 b1)
  also have "\<dots> = unat w mod 65536"
    using mod_mult2_eq [of "unat w" 256 256] by simp
  also have "\<dots> = unat w"
    using lt by (rule mod_less)
  finally show ?thesis .
qed

lemma take_header:
  "take 44 (createBuffer_bytes lib p len)
     = writeWavHeader 8 1 8000 (to_unsigned (to_double (len * real_of_int sampleRate)))"
  by (simp add: createBuffer_bytes_closed)

lemma header_fields:
  fixes n :: "32 word"
  defines "h \<equiv> writeWavHeader 8 1 8000 n"
  shows "take 4 h = chars ''RIFF''"
    and "read_le32 h 4 = unat (n + 44 - 8)"
    and "take 8 (drop 8 h) = chars ''WAVEfmt ''"
    and "read_le32 h 16 = 16"
    and "read_le16 h 20 = 1"
    and "read_le16 h 22 = 1"
    and "read_le32 h 24 = 8000"
    and "read_le32 h 28 = 8000"
    and "read_le16 h 32 = 1"
    and "read_le16 h 34 = 8"
    and "take 4 (drop 36 h) = chars ''data''"
    and "read_le32 h 40 = unat n"
proof -
  have h: "h = chars ''RIFF'' @ le32 (n + 36) @ chars ''WAVEfmt '' @ le32 16 @ le16 1 @ le16 1
     @ le32 8000 @ le32 8000 @ le16 1 @ le16 8 @ chars ''data'' @ le32 n"
    unfolding h_def by (rule writeWavHeader_8_1)
  show "take 4 h = chars ''RIFF''" by (simp add: h)
  show "read_le32 h 4 = unat (n + 44 - 8)"
    using read_le32_at [of "chars ''RIFF''" 4 "n + 36"] by (simp add: h add.commute [of 36 n])
  show "take 8 (drop 8 h) = chars ''WAVEfmt ''" by (simp add: h)
  show "read_le32 h 16 = 16"
    using read_le32_at [of "chars ''RIFF'' @ le32 (n + 36) @ chars ''WAVEfmt ''" 16 16]
    by (simp add: h)
  show "read_le16 h 20 = 1"
    using read_le16_at [of "chars ''RIFF'' @ le32 (n + 36) @ chars ''WAVEfmt '' @ le32 16" 20 1]
    by (simp add: h)
  show "read_le16 h 22 = 1"
    using read_le16_at [of "chars ''RIFF'' @ le32 (n + 36) @ chars ''WAVEfmt '' @ le32 16 @ le16 1" 22 1]
    by (simp add: h)
  show "read_le32 h 24 = 8000"
    using read_le32_at [of "chars ''RIFF'' @ le32 (n + 36) @ chars ''WAVEfmt '' @ le32 16 @ le16 1
       @ le16 1" 24 8000]
    by (simp add: h)
  show "read_le32 h 28 = 8000"
    using read_le32_at [of "chars ''RIFF'' @ le32 (n + 36) @ chars ''WAVEfmt '' @ le32 16 @ le16 1
       @ le16 1 @ le32 8000" 28 8000]
    by (simp add: h)
  show "read_le16 h 32 = 1"
    using read_le16_at [of "chars ''RIFF'' @ le32 (n + 36) @ chars ''WAVEfmt '' @ le32 16 @ le16 1
       @ le16 1 @ le32 8000 @ le32 8000" 32 1]
    by (simp add: h)
  show "read_le16 h 34 = 8"
    using read_le16_at [of "chars ''RIFF'' @ le32 (n + 36) @ chars ''WAVEfmt '' @ le32 16 @ le16 1
       @ le16 1 @ le32 8000 @ le32 8000 @ le16 1" 34 8]
    by (simp add: h)
  show "take 4 (drop 36 h) = chars ''data''" by (simp add: h)
  show "read_le32 h 40 = unat n"
    using read_le32_at [of "chars ''RIFF'' @ le32 (n + 36) @ chars ''WAVEfmt '' @ le32 16 @ le16 1
       @ le16 1 @ le32 8000 @ le32 8000 @ le16 1 @ le16 8 @ chars ''data''" 40 n "[]"]
    by (simp add: h)
qed


lemma read_le32_append:
  "off + 3 < length xs \<Longrightarrow> read_le32 (xs @ ys) off = read_le32 xs off"
  by (simp add: read_le32_def nth_append)

lemma read_le16_append:
  "off + 1 < length xs \<Longrightarrow> read_le16 (xs @ ys) off = read_le16 xs off"
  by (simp add: read_le16_def nth_append)

lemma createBuffer_bytes_nth:
  "i < sample_count len \<Longrightarrow>
     createBuffer_bytes lib p len ! (44 + i)
       = sample_byte lib (to_double ((real_of_int p + 1) / 13)) (phase_at (getNoteFreq lib (p + 12)) i)"
  by (simp add: createBuffer_bytes_closed nth_append)

lemma to_double_abs_le: "\<bar>x\<bar> \<le> b \<Longrightarrow> to_double b = b \<Longrightarrow> \<bar>to_double x\<bar> \<le> b"
  unfolding to_double_def by (rule fl_round_abs_le) simp_all

lemma to_float_abs_le: "\<bar>x\<bar> \<le> b \<Longrightarrow> to_float b = b \<Longrightarrow> \<bar>to_float x\<bar> \<le> b"
  unfolding to_float_def by (rule fl_round_abs_le) simp_all

lemma to_double_nonneg: "0 \<le> x \<Longrightarrow> 0 \<le> to_double x"
  unfolding to_double_def by (rule fl_round_nonneg)

lemma to_double_le: "x \<le> b \<Longrightarrow> to_double b = b \<Longrightarrow> to_double x \<le> b"
  unfolding to_double_def by (rule fl_round_le) simp_all

lemma to_double_ge: "b \<le> x \<Longrightarrow> to_double b = b \<Longrightarrow> b \<le> to_double x"
  unfolding to_double_def by (rule fl_round_ge) simp_all

lemma to_float_le: "x \<le> b \<Longrightarrow> to_float b = b \<Longrightarrow> to_float x \<le> b"
  unfolding to_float_def by (rule fl_round_le) simp_all

lemma to_float_ge: "b \<le> x \<Longrightarrow> to_float b = b \<Longrightarrow> b \<le> to_float x"
  unfolding to_float_def by (rule fl_round_ge) simp_all

lemma abs_mult_le:
  fixes a s :: real
  assumes "\<bar>a\<bar> \<le> b" and "\<bar>s\<bar> \<le> 1"
  shows "\<bar>a * s\<bar> \<le> b"
proof -
  have "\<bar>a * s\<bar> = \<bar>a\<bar> * \<bar>s\<bar>" by (rule abs_mult)
  also have "\<dots> \<le> b * 1"
    using assms by (intro mult_mono) simp_all
  finally show ?thesis by simp
qed

lemma fvalue_bounds:
  assumes "0 \<le> d" and "d \<le> 1" and "\<And>x. \<bar>std_sin lib x\<bar> \<le> 1"
  shows "\<bar>fvalue lib d phase\<bar> \<le> 3/4"
proof -
  define c where "c = to_double 0.2"
  have c0: "0 \<le> c"
    unfolding c_def by (rule to_double_nonneg) simp
  have c1: "c \<le> 1/4"
    unfolding c_def by (rule to_double_le) (simp_all add: to_double_values)
  note c = c0 c1
  define a1 where "a1 = to_double (d * c)"
  have "0 \<le> d * c" "d * c \<le> 1/4"
    using assms(1,2) c mult_mono [of d 1 c "1/4"] by simp_all
  then have a1: "\<bar>a1\<bar> \<le> 1/4"
    unfolding a1_def using to_double_nonneg [of "d * c"] to_double_le [of "d * c" "1/4"]
    by (simp add: to_double_values)
  define t1 where "t1 = to_double (a1 * std_sin lib phase)"
  have t1: "\<bar>t1\<bar> \<le> 1/4"
    unfolding t1_def using abs_mult_le [OF a1 assms(3)]
    by (intro to_double_abs_le) (simp_all add: to_double_values)
  define t2 where "t2 = to_double (c * std_sin lib (to_double (2 * phase)))"
  have ca: "\<bar>c\<bar> \<le> 1/4" using c by simp
  have t2: "\<bar>t2\<bar> \<le> 1/4"
    unfolding t2_def using abs_mult_le [OF ca assms(3)]
    by (intro to_double_abs_le) (simp_all add: to_double_values)
  define u where "u = to_double (t1 + t2)"
  have "\<bar>t1 + t2\<bar> \<le> 1/2" using t1 t2 by linarith
  then have u: "\<bar>u\<bar> \<le> 1/2"
    unfolding u_def by (rule to_double_abs_le) (simp add: to_double_values)
  define b where "b = to_double (1.0 - d)"
  have b0: "0 \<le> b"
    unfolding b_def using assms(2) by (intro to_double_nonneg) simp
  have b1: "b \<le> 1"
    unfolding b_def using assms(1) by (intro to_double_le) (simp_all add: to_double_values)
  note b = b0 b1
  define b2 where "b2 = to_double (b * c)"
  have "0 \<le> b * c" "b * c \<le> 1/4"
    using b c mult_mono [of b 1 c "1/4"] by simp_all
  then have b2: "\<bar>b2\<bar> \<le> 1/4"
    unfolding b2_def using to_double_nonneg [of "b * c"] to_double_le [of "b * c" "1/4"]
    by (simp add: to_double_values)
  define t3 where "t3 = to_double (b2 * std_sin lib (to_double (4 * phase)))"
  have t3: "\<bar>t3\<bar> \<le> 1/4"
    unfolding t3_def using abs_mult_le [OF b2 assms(3)]
    by (intro to_double_abs_le) (simp_all add: to_double_values)
  define w where "w = to_double (u + t3)"
  have "\<bar>u + t3\<bar> \<le> 3/4" using u t3 by linarith
  then have w: "\<bar>w\<bar> \<le> 3/4"
    unfolding w_def by (rule to_double_abs_le) (simp add: to_double_values)
  have "fvalue lib d phase = to_float w"
    by (simp add: fvalue_def w_def u_def t1_def t2_def t3_def a1_def b2_def b_def c_def)
  moreover have "\<bar>to_float w\<bar> \<le> 3/4"
    using w by (intro to_float_abs_le) (simp_all add: to_float_values)
  ultimately show ?thesis by simp
qed

lemma sample_byte_bounds:
  fixes d phase :: real
  assumes "0 \<le> d" and "d \<le> 1" and "\<And>x. \<bar>std_sin lib x\<bar> \<le> 1"
  defines "v \<equiv> to_double (to_double (to_float (fvalue lib d phase + 1) * 0.5) * 255)"
  shows "sample_byte lib d phase = word_of_int \<lfloor>v\<rfloor>"
    and "31 \<le> \<lfloor>v\<rfloor>" and "\<lfloor>v\<rfloor> \<le> 223"
    and "uint (sample_byte lib d phase) = \<lfloor>v\<rfloor>"
proof -
  have f: "\<bar>fvalue lib d phase\<bar> \<le> 3/4" using assms(1,2,3) by (rule fvalue_bounds)
  define g1 where "g1 = to_float (fvalue lib d phase + 1)"
  have g1a: "1/4 \<le> g1"
    unfolding g1_def using f by (intro to_float_ge) (simp_all add: to_float_values)
  have g1b: "g1 \<le> 7/4"
    unfolding g1_def using f by (intro to_float_le) (simp_all add: to_float_values)
  note g1 = g1a g1b
  define h where "h = to_double (g1 * 0.5)"
  have ha: "1/8 \<le> h"
    unfolding h_def using g1a by (intro to_double_ge) (simp_all add: to_double_values)
  have hb: "h \<le> 7/8"
    unfolding h_def using g1b by (intro to_double_le) (simp_all add: to_double_values)
  note h = ha hb
  have v: "v = to_double (h * 255)" by (simp add: v_def h_def g1_def)
  have lo: "255/8 \<le> v"
    unfolding v using ha by (intro to_double_ge) (simp_all add: to_double_values)
  have hi: "v \<le> 1785/8"
    unfolding v using hb by (intro to_double_le) (simp_all add: to_double_values)
  from lo have "0 \<le> v" by linarith
  then show eq: "sample_byte lib d phase = word_of_int \<lfloor>v\<rfloor>"
    by (simp add: sample_byte_def to_quint8_def c_trunc_def v_def)
  from lo have "(31::real) \<le> v" by linarith
  then show l31: "31 \<le> \<lfloor>v\<rfloor>" by (simp add: le_floor_iff)
  from hi have "v < 224" by linarith
  then have "\<lfloor>v\<rfloor> < 224" by (simp add: floor_less_iff)
  then show l223: "\<lfloor>v\<rfloor> \<le> 223" by simp
  have "uint (word_of_int \<lfloor>v\<rfloor> :: byte) = \<lfloor>v\<rfloor> mod 256"
    by (simp add: uint_word_of_int)
  also have "\<dots> = \<lfloor>v\<rfloor>" using l31 l223 by simp
  finally show "uint (sample_byte lib d phase) = \<lfloor>v\<rfloor>" by (simp only: eq)
qed

subsection \<open>The scan of the schedule pass\<close>

lemma calcNext_scan_Some:
  "calcNext_scan p ns = Some n \<Longrightarrow>
     p \<le> sn_begin n \<and> (\<exists>pre post. ns = pre @ n # post \<and> (\<forall>m\<in>set pre. sn_begin m < p))"
proof (induction ns)
  case Nil
  then show ?case by simp
next
  case (Cons a ns)
  show ?case
  proof (cases "sn_begin a < p")
    case True
    with Cons.prems have "calcNext_scan p ns = Some n" by simp
    from Cons.IH [OF this] obtain pre post
      where le: "p \<le> sn_begin n" and eq: "ns = pre @ n # post" and pre: "\<forall>m\<in>set pre. sn_begin m < p"
      by blast
    from eq have "a # ns = (a # pre) @ n # post" by simp
    moreover from pre True have "\<forall>m\<in>set (a # pre). sn_begin m < p" by simp
    ultimately show ?thesis using le by blast
  next
    case False
    with Cons.prems have "a = n" by simp
    then have "a # ns = [] @ n # ns" by simp
    moreover have "\<forall>m\<in>set []. sn_begin m < p" by simp
    ultimately show ?thesis using False \<open>a = n\<close> by (metis not_less)
  qed
qed

lemma calcNext_scan_None:
  "(calcNext_scan p ns = None) = (\<forall>m\<in>set ns. sn_begin m < p)"
  by (induction ns) auto

lemma calcNext_m_pos [simp]: "m_pos (calcNext g e s) = m_pos s"
  by (simp add: calcNext_def createBuffer_def Let_def split: option.split)

lemma calcNext_m_notes [simp]: "m_notes (calcNext g e s) = m_notes s"
  by (simp add: calcNext_def createBuffer_def Let_def split: option.split)

lemma calcNext_m_noteBegin_Some:
  "calcNext_scan (m_pos s) (m_notes s) = Some n \<Longrightarrow> m_noteBegin (calcNext g e s) = sn_begin n"
  by (simp add: calcNext_def createBuffer_def Let_def)

text \<open>
  Claim C1. Whatever the position \<open>p\<close>, the note list and the stored last-rendered
  onset: when the scan of the schedule pass selects a note \<open>n\<close>, its onset is not
  before \<open>p\<close> and every note in front of it in the list begins before \<open>p\<close>, so \<open>n\<close>
  is the first note in sequence order with onset at least \<open>p\<close>; the scan selects
  nothing only when every note begins before \<open>p\<close>; the pass records the onset of the
  note it selected; and the pass changes neither the position nor the list, so a second
  pass selects the same note. Sortedness of the list is not needed.
\<close>

theorem C1_scan_first_upcoming:
  "(calcNext_scan p ns = Some n \<longrightarrow>
      p \<le> sn_begin n \<and> (\<exists>pre post. ns = pre @ n # post \<and> (\<forall>m\<in>set pre. sn_begin m < p)))
   \<and> (calcNext_scan p ns = None \<longrightarrow> (\<forall>m\<in>set ns. sn_begin m < p))
   \<and> (calcNext_scan (m_pos s) (m_notes s) = Some n' \<longrightarrow> m_noteBegin (calcNext g e s) = sn_begin n')
   \<and> calcNext_scan (m_pos (calcNext g e s)) (m_notes (calcNext g e s))
       = calcNext_scan (m_pos s) (m_notes s)"
  using calcNext_scan_Some [of p ns n] calcNext_scan_None [of p ns]
    calcNext_m_noteBegin_Some [of s n' g e]
  by simp

theorem C1_scan_first_upcoming_witness:
  "calcNext_scan 1 [\<lparr>sn_note = 60, sn_begin = 1/2, sn_length = 1\<rparr>,
                    \<lparr>sn_note = 62, sn_begin = 1, sn_length = 1\<rparr>,
                    \<lparr>sn_note = 64, sn_begin = 2, sn_length = 1\<rparr>]
     = Some \<lparr>sn_note = 62, sn_begin = 1, sn_length = 1\<rparr>
   \<and> (1::real) \<le> sn_begin \<lparr>sn_note = 62, sn_begin = 1, sn_length = 1\<rparr>
   \<and> calcNext_scan 3 [\<lparr>sn_note = 60, sn_begin = 1/2, sn_length = 1\<rparr>] = None
   \<and> m_noteBegin (calcNext flat_scale 0
         (Synth_new\<lparr>m_pos := 1, m_notes := [\<lparr>sn_note = 62, sn_begin = 1, sn_length = 1\<rparr>]\<rparr>)) = 1"
  using C1_scan_first_upcoming [of 1 "[\<lparr>sn_note = 60, sn_begin = 1/2, sn_length = 1\<rparr>,
                    \<lparr>sn_note = 62, sn_begin = 1, sn_length = 1\<rparr>,
                    \<lparr>sn_note = 64, sn_begin = 2, sn_length = 1\<rparr>]"
        "\<lparr>sn_note = 62, sn_begin = 1, sn_length = 1\<rparr>"
        "Synth_new\<lparr>m_pos := 1, m_notes := [\<lparr>sn_note = 62, sn_begin = 1, sn_length = 1\<rparr>]\<rparr>"
        "\<lparr>sn_note = 62, sn_begin = 1, sn_length = 1\<rparr>" flat_scale 0]
  by simp

subsection \<open>The length of a rendered buffer\<close>

text \<open>The fields of the header at the head of a rendered buffer, read back.\<close>

lemma createBuffer_bytes_header:
  "let out = createBuffer_bytes g p len;
       n = to_unsigned (to_double (len * real_of_int sampleRate))
   in take 44 out = writeWavHeader 8 1 8000 n
    \<and> take 4 out = chars ''RIFF''
    \<and> read_le32 out 4 = unat (n + 44 - 8)
    \<and> take 8 (drop 8 out) = chars ''WAVEfmt ''
    \<and> read_le32 out 16 = 16
    \<and> read_le16 out 20 = 1
    \<and> read_le16 out 22 = 1
    \<and> read_le32 out 24 = 8000
    \<and> read_le32 out 28 = 8000
    \<and> read_le16 out 32 = 1
    \<and> read_le16 out 34 = 8
    \<and> take 4 (drop 36 out) = chars ''data''
    \<and> read_le32 out 40 = unat n"
proof -
  define n where "n = to_unsigned (to_double (len * real_of_int sampleRate))"
  define h where "h = writeWavHeader 8 1 8000 n"
  define out where "out = createBuffer_bytes g p len"
  obtain body where out: "out = h @ body"
    unfolding out_def h_def n_def by (simp add: createBuffer_bytes_closed)
  have len: "length h = 44" by (simp add: h_def)
  have r32: "read_le32 out k = read_le32 h k" if "k + 3 < 44" for k
    using that by (simp add: out read_le32_append len)
  have r16: "read_le16 out k = read_le16 h k" if "k + 1 < 44" for k
    using that by (simp add: out read_le16_append len)
  have t: "take 44 out = h" by (simp add: out len)
  have t4: "take 4 out = take 4 h" by (simp add: out len)
  have t8: "take 8 (drop 8 out) = take 8 (drop 8 h)" by (simp add: out len)
  have t36: "take 4 (drop 36 out) = take 4 (drop 36 h)" by (simp add: out len)
  have "take 44 out = h"
    and "take 4 out = chars ''RIFF''"
    and "read_le32 out 4 = unat (n + 44 - 8)"
    and "take 8 (drop 8 out) = chars ''WAVEfmt ''"
    and "read_le32 out 16 = 16"
    and "read_le16 out 20 = 1"
    and "read_le16 out 22 = 1"
    and "read_le32 out 24 = 8000"
    and "read_le32 out 28 = 8000"
    and "read_le16 out 32 = 1"
    and "read_le16 out 34 = 8"
    and "take 4 (drop 36 out) = chars ''data''"
    and "read_le32 out 40 = unat n"
    using header_fields [of n] t
    by (simp_all only: r32 r16 t4 t8 t36 h_def [symmetric])
  then show ?thesis
    unfolding Let_def out_def [symmetric] n_def [symmetric] h_def [symmetric] by blast
qed

lemma sample_count_of_nat:
  "to_double (len * 8000) = real k \<Longrightarrow> sample_count len = k"
  by (simp add: sample_count_def sampleRate_def)

lemma to_unsigned_of_nat:
  "k < 2 ^ 32 \<Longrightarrow> unat (to_unsigned (real k)) = k"
proof -
  assume k: "k < 2 ^ 32"
  have "to_unsigned (real k) = (word_of_int (int k) :: 32 word)"
    by (simp add: to_unsigned_def c_trunc_def)
  also have "\<dots> = of_nat k" by simp
  finally show ?thesis using k by (simp add: unat_of_nat)
qed

lemma read_data_size:
  "read_le32 (createBuffer_bytes g p len) 40
     = unat (to_unsigned (to_double (len * real_of_int sampleRate)))"
  using createBuffer_bytes_header [of g p len] by (simp add: Let_def)

text \<open>
  The duration \<^verbatim>\<open>0.3333\<close>: the loop takes 2667 turns and the header is given 2666.
\<close>

lemma third_sample_count: "sample_count (to_double (3333/10000)) = 2667"
proof -
  have "\<lceil>5863475608603853 / 2199023255552 :: real\<rceil> = 2667"
    by (simp add: ceiling_unique)
  then show ?thesis
    by (simp add: sample_count_def sampleRate_def to_double_third_count)
qed

lemma third_header_count:
  "to_unsigned (to_double (to_double (3333/10000) * real_of_int sampleRate)) = 2666"
proof -
  have "\<lfloor>5863475608603853 / 2199023255552 :: real\<rfloor> = 2666"
    by (simp add: floor_unique)
  then show ?thesis
    by (simp add: to_unsigned_def c_trunc_def sampleRate_def to_double_third_count)
qed

text \<open>
  Claim C3, as amended. For every pitch class and duration, one render pass produces
  the 44-byte header followed by one sample byte for every index below the \<^verbatim>\<open>double\<close>
  product \<^verbatim>\<open>length * 8000\<close>, so the total length is 44 plus that product rounded up (not
  the exact product rounded to nearest). When the \<^verbatim>\<open>double\<close> product is a whole number
  below \<open>2\<^sup>3\<^sup>2\<close>, the total length is 44 plus the duration times 8000 rounded to
  nearest, and the data-size field of the header equals the number of sample bytes that
  follow it.
\<close>

theorem C3_render_length:
  "length (createBuffer_bytes g p len) = 44 + nat \<lceil>to_double (len * 8000)\<rceil>
   \<and> take 44 (createBuffer_bytes g p len)
        = writeWavHeader 8 1 8000 (to_unsigned (to_double (len * real_of_int sampleRate)))
   \<and> (to_double (len * 8000) = real k \<and> k < 2 ^ 32 \<longrightarrow>
        length (createBuffer_bytes g p len) = 44 + nat (round (len * 8000))
        \<and> read_le32 (createBuffer_bytes g p len) 40
            = length (createBuffer_bytes g p len) - 44)"
proof -
  have a: "length (createBuffer_bytes g p len) = 44 + nat \<lceil>to_double (len * 8000)\<rceil>"
    by (simp add: length_createBuffer_bytes sample_count_def sampleRate_def)
  have b: "length (createBuffer_bytes g p len) = 44 + nat (round (len * 8000))
        \<and> read_le32 (createBuffer_bytes g p len) 40
            = length (createBuffer_bytes g p len) - 44"
    if k: "to_double (len * 8000) = real k" "k < 2 ^ 32"
  proof -
    have "to_double (len * real_of_int sampleRate) = real k"
      using k(1) by (simp add: sampleRate_def)
    then have "read_le32 (createBuffer_bytes g p len) 40 = k"
      using to_unsigned_of_nat [OF k(2)] by (simp only: read_data_size)
    moreover have "length (createBuffer_bytes g p len) = 44 + k"
      using sample_count_of_nat [OF k(1)] by (simp only: length_createBuffer_bytes)
    moreover have "nat (round (len * 8000)) = k"
      using to_double_whole_round [OF k] by simp
    ultimately show ?thesis by simp
  qed
  from a b take_header [of g p len] show ?thesis by blast
qed

text \<open>
  A tenth of a second, the \<^verbatim>\<open>double\<close> nearest to 0.1: the exact product with 8000 is just
  above 800, the \<^verbatim>\<open>double\<close> product is 800, and 800 samples follow the header.
\<close>

theorem C3_render_length_witness:
  "to_double (to_double (1/10) * 8000) = real 800 \<and> (800::nat) < 2 ^ 32
   \<and> length (createBuffer_bytes flat_scale 0 (to_double (1/10))) = 844
   \<and> read_le32 (createBuffer_bytes flat_scale 0 (to_double (1/10))) 40 = 800"
proof -
  have r: "nat (round (to_double (1/10) * 8000)) = 800"
    using to_double_whole_round [of "to_double (1/10) * 8000" 800] to_double_tenth_count by simp
  from C3_render_length [of flat_scale 0 "to_double (1/10)" 800] to_double_tenth_count r
  show ?thesis by simp
qed

text \<open>
  A third of a second, written \<^verbatim>\<open>0.3333\<close>: the product is near 2666.4, 2667 samples
  follow the header, the product rounded to nearest is 2666, and the header announces
  2666 bytes of data.
\<close>

theorem C3_counterexample:
  "length (createBuffer_bytes flat_scale 0 (to_double (3333/10000)))
     \<noteq> 44 + nat (round (to_double (3333/10000) * 8000))
   \<and> read_le32 (createBuffer_bytes flat_scale 0 (to_double (3333/10000))) 40
     \<noteq> length (createBuffer_bytes flat_scale 0 (to_double (3333/10000))) - 44"
proof -
  have r: "round (to_double (3333/10000) * 8000) = 2666"
    by (simp add: to_double_third round_def floor_unique)
  have u: "unat (2666 :: 32 word) = 2666" by simp
  show ?thesis
    by (simp only: length_createBuffer_bytes read_data_size third_sample_count
          third_header_count r u) simp
qed

subsection \<open>The container header\<close>

text \<open>
  Claim C9 reads: every rendered output begins with a 44-byte little-endian header that
  holds \<open>RIFF\<close> at offset 0, the total size less 8 at offset 4, \<open>WAVEfmt \<close> at offset 8,
  16 at offset 16, format tag 1 at offset 20, channel count 1 at offset 22, sample rate
  8000 at offset 24, byte rate 8000 at offset 28, block align 1 at offset 32, 8 bits per
  sample at offset 34, \<open>data\<close> at offset 36, and at offset 40 the data size, which is the
  number of sample bytes. The code departs from it in the two sizes. \<^verbatim>\<open>createBuffer\<close>
  hands the header writer the product \<^verbatim>\<open>length * sampleRate\<close> with its fraction
  discarded (line 127), and its loop writes a byte for every index below the product
  (line 133): when the product has a fraction, one byte more than the header counts.
  For the duration \<^verbatim>\<open>0.3333\<close> and every pitch class, the output has 2711 bytes, 2667 of
  them samples; the ten fixed fields are as the claim has them, offset 40 holds 2666
  where the claim has 2667, and offset 4 holds 2702 where it has 2703.
\<close>

theorem C9_header_sizes:
  "let out = createBuffer_bytes g p (to_double (3333/10000))
   in length out = 2711
    \<and> take 4 out = chars ''RIFF''
    \<and> read_le32 out 4 = 2702
    \<and> take 8 (drop 8 out) = chars ''WAVEfmt ''
    \<and> read_le32 out 16 = 16
    \<and> read_le16 out 20 = 1
    \<and> read_le16 out 22 = 1
    \<and> read_le32 out 24 = 8000
    \<and> read_le32 out 28 = 8000
    \<and> read_le16 out 32 = 1
    \<and> read_le16 out 34 = 8
    \<and> take 4 (drop 36 out) = chars ''data''
    \<and> read_le32 out 40 = 2666
    \<and> read_le32 out 40 \<noteq> length out - 44
    \<and> read_le32 out 4 \<noteq> length out - 8"
proof -
  have l: "length (createBuffer_bytes g p (to_double (3333/10000))) = 2711"
    by (simp add: length_createBuffer_bytes third_sample_count)
  have a: "unat (2666 :: 32 word) = 2666" "unat (2666 + 44 - 8 :: 32 word) = 2702"
    by simp_all
  from createBuffer_bytes_header [of g p "to_double (3333/10000)"] show ?thesis
    unfolding Let_def third_header_count l a by simp
qed

subsection \<open>The value of a sample\<close>

text \<open>
  Claim C8, as amended. For every pitch class from 0 to 11, every duration and every
  sample index \<open>i\<close> below the \<^verbatim>\<open>double\<close> product \<^verbatim>\<open>length * 8000\<close>, and a sine whose
  values lie between -1 and 1, the \<open>i\<close>-th sample byte is \<open>(s + 1) * 0.5 * 255\<close> with its
  fraction discarded (not rounded to nearest), where
  \<open>s = d * 0.2 * sin phase + 0.2 * sin (2 * phase) + (1 - d) * 0.2 * sin (4 * phase)\<close>,
  \<open>d = (pitchClass + 1) / 13\<close>, and \<open>phase\<close> is 0 increased \<open>i\<close> times by
  \<open>2 * M_PI * freq / 8000\<close>, with \<open>freq\<close> the table's frequency of \<open>pitchClass + 12\<close>.
  Every operation is rounded as the code has it: \<open>d\<close>, the phase and the terms of \<open>s\<close> in
  \<^verbatim>\<open>double\<close>, \<open>s\<close> itself and \<open>s + 1\<close> in \<^verbatim>\<open>float\<close>, the two products that follow in
  \<^verbatim>\<open>double\<close>. The value lies between 31 and 223, so the conversion to a byte is
  defined and no clamping takes place.
\<close>

theorem C8_sample_value:
  assumes "0 \<le> p" and "p \<le> 11" and "real i < to_double (len * 8000)"
    and "\<forall>x. \<bar>std_sin g x\<bar> \<le> 1"
  shows "let d = to_double ((real_of_int p + 1) / 13);
             step = to_double (to_double (to_double (2 * M_PI) * getNoteFreq g (p + 12)) / 8000);
             phase = ((\<lambda>ph. to_double (ph + step)) ^^ i) 0;
             s = to_float
                   (to_double
                      (to_double
                         (to_double (to_double (d * to_double 0.2) * std_sin g phase)
                          + to_double (to_double 0.2 * std_sin g (to_double (2 * phase))))
                       + to_double
                           (to_double (to_double (1 - d) * to_double 0.2)
                            * std_sin g (to_double (4 * phase)))));
             v = to_double (to_double (to_float (s + 1) * 0.5) * 255)
         in uint (createBuffer_bytes g p len ! (44 + i)) = \<lfloor>v\<rfloor> \<and> 31 \<le> \<lfloor>v\<rfloor> \<and> \<lfloor>v\<rfloor> \<le> 223"
proof -
  define d where "d = to_double ((real_of_int p + 1) / 13)"
  define phase where "phase = phase_at (getNoteFreq g (p + 12)) i"
  have d0: "0 \<le> d"
    unfolding d_def using assms(1) by (intro to_double_nonneg) simp
  have d1: "d \<le> 1"
    unfolding d_def using assms(2) by (intro to_double_le) (simp_all add: to_double_values)
  have sn: "\<And>x. \<bar>std_sin g x\<bar> \<le> 1" using assms(4) by simp
  have i: "i < sample_count len"
    using assms(3) sample_count_less [of i len] by (simp add: sampleRate_def)
  have nth: "createBuffer_bytes g p len ! (44 + i) = sample_byte g d phase"
    using createBuffer_bytes_nth [OF i, of g p] by (simp only: phase_def d_def)
  from sample_byte_bounds(2,3,4) [OF d0 d1 sn, of phase] show ?thesis
    by (simp add: Let_def nth fvalue_def d_def phase_def phase_at_def phase_step_def
          sampleRate_def)
qed

text \<open>The sine of the examples is within bounds, and the first sample of a tone is 127.\<close>

lemma flat_scale_sin: "\<bar>std_sin flat_scale x\<bar> \<le> 1"
  by (simp add: flat_scale_def to_double_abs_le to_double_values)

lemma half_sample_count: "to_double ((1/2) * 8000) = 4000"
  using to_double_values by simp

lemma first_sample: "sample_byte flat_scale d 0 = 127"
proof -
  have f: "fvalue flat_scale d 0 = 0"
    by (simp add: fvalue_def flat_scale_def to_double_zero to_float_zero)
  show ?thesis
    by (simp add: sample_byte_def f to_quint8_def c_trunc_def to_float_values to_double_values)
qed

theorem C8_sample_value_witness:
  "(0::int) \<le> 0 \<and> (0::int) \<le> 11 \<and> real (0::nat) < to_double ((1/2) * 8000)
   \<and> uint (createBuffer_bytes flat_scale 0 (1/2) ! 44) = 127"
proof -
  have h: "\<forall>x. \<bar>std_sin flat_scale x\<bar> \<le> 1" by (simp add: flat_scale_sin)
  have c: "real (0::nat) < to_double ((1/2) * 8000)" using half_sample_count by simp
  from C8_sample_value [OF _ _ c h, of 0] show ?thesis
    by (simp add: Let_def flat_scale_def to_float_values to_double_values to_double_zero
          to_float_zero)
qed

text \<open>
  The first sample of any tone: the phase is 0, the value before conversion is 127.5,
  the code stores 127, and the value rounded to nearest is 128.
\<close>

theorem C8_counterexample:
  "uint (createBuffer_bytes flat_scale 0 (1/2) ! (44 + 0)) = 127
   \<and> spec_sample (getNoteFreq flat_scale) 0 0 = 128
   \<and> uint (createBuffer_bytes flat_scale 0 (1/2) ! (44 + 0))
       \<noteq> spec_sample (getNoteFreq flat_scale) 0 0"
proof -
  have "(0::nat) < sample_count (1/2)"
    using half_sample_count by (simp add: sample_count_def sampleRate_def)
  from createBuffer_bytes_nth [OF this, of flat_scale 0]
  have "createBuffer_bytes flat_scale 0 (1/2) ! (44 + 0)
          = sample_byte flat_scale (to_double ((real_of_int 0 + 1) / 13)) 0"
    by (simp add: phase_at_def)
  moreover have "spec_sample (getNoteFreq flat_scale) 0 0 = 128"
    by (simp add: spec_sample_def round_def)
  ultimately show ?thesis by (simp add: first_sample)
qed

subsection \<open>The schedule pass, member by member\<close>

lemma calcNext_None:
  "calcNext_scan (m_pos s) (m_notes s) = None \<Longrightarrow>
     calcNext g e s = s\<lparr> m_delay := real ULONG_MAX / 1000 \<rparr>"
  by (simp add: calcNext_def)

lemma calcNext_m_curBuffer [simp]: "m_curBuffer (calcNext g e s) = m_curBuffer s"
  by (simp add: calcNext_def createBuffer_def Let_def split: option.split)

lemma calcNext_m_quit [simp]: "m_quit (calcNext g e s) = m_quit s"
  by (simp add: calcNext_def createBuffer_def Let_def split: option.split)

lemma calcNext_thread [simp]: "thread (calcNext g e s) = thread s"
  by (simp add: calcNext_def createBuffer_def Let_def split: option.split)

lemma calcNext_trace:
  "trace (calcNext g e s) =
     trace s @ (case calcNext_scan (m_pos s) (m_notes s) of
                  None \<Rightarrow> []
                | Some n \<Rightarrow> if sn_begin n \<noteq> m_noteBegin s then [Render (m_curBuffer s)] else [])"
  by (simp add: calcNext_def createBuffer_def Let_def split: option.split)

lemma calcNext_m_soundData:
  "m_soundData (calcNext g e s) =
     (case calcNext_scan (m_pos s) (m_notes s) of
        None \<Rightarrow> m_soundData s
      | Some n \<Rightarrow> if sn_begin n \<noteq> m_noteBegin s
                  then (m_soundData s)[nat (m_curBuffer s) :=
                         createBuffer_bytes g (c_rem (sn_note n) 12) (sn_length n)]
                  else m_soundData s)"
  by (simp add: calcNext_def createBuffer_def Let_def split: option.split)

lemma calcNext_m_delay:
  "m_delay (calcNext g e s) =
     (case calcNext_scan (m_pos s) (m_notes s) of
        None \<Rightarrow> real ULONG_MAX / 1000
      | Some n \<Rightarrow> max (sn_begin n - m_pos s - real e / 1000) 0.001)"
  by (simp add: calcNext_def createBuffer_def Let_def max_def split: option.split)

lemma ULONG_MAX_pos: "1000 < real ULONG_MAX"
  by (simp add: ULONG_MAX_def)

lemma calcNext_delay_floor: "0.001 \<le> m_delay (calcNext g e s)"
proof (cases "calcNext_scan (m_pos s) (m_notes s)")
  case None
  then show ?thesis using ULONG_MAX_pos by (simp add: calcNext_m_delay)
next
  case (Some n)
  have "(0.001::real) \<le> max (sn_begin n - m_pos s - real e / 1000) 0.001"
    by (rule max.cobounded2)
  with Some show ?thesis by (simp only: calcNext_m_delay option.case)
qed


subsection \<open>The onset event\<close>

lemma c_rem_flip: "k = 0 \<or> k = 1 \<Longrightarrow> c_rem (k + 1) 2 = 1 - k"
  by (auto simp: c_rem_def)

lemma run_onset_m_curBuffer: "m_curBuffer (run_onset g e s) = c_rem (m_curBuffer s + 1) 2"
  by (simp add: run_onset_def Let_def)

lemma run_onset_m_pos: "m_pos (run_onset g e s) = m_pos s + 0.2"
  by (simp add: run_onset_def Let_def)

lemma run_onset_m_notes [simp]: "m_notes (run_onset g e s) = m_notes s"
  by (simp add: run_onset_def Let_def)

lemma run_onset_m_quit [simp]: "m_quit (run_onset g e s) = m_quit s"
  by (simp add: run_onset_def Let_def)

lemma run_onset_thread [simp]: "thread (run_onset g e s) = thread s"
  by (simp add: run_onset_def Let_def)

lemma run_onset_trace:
  "trace (run_onset g e s) =
     trace s @ Play (m_curBuffer s) (m_soundData s ! nat (m_curBuffer s))
       # (case calcNext_scan (m_pos s + 0.2) (m_notes s) of
            None \<Rightarrow> []
          | Some n \<Rightarrow> if sn_begin n \<noteq> m_noteBegin s
                      then [Render (c_rem (m_curBuffer s + 1) 2)] else [])"
  by (simp add: run_onset_def Let_def calcNext_trace split: option.split)

lemma run_onset_m_delay:
  "m_delay (run_onset g e s) =
     (case calcNext_scan (m_pos s + 0.2) (m_notes s) of
        None \<Rightarrow> max (real ULONG_MAX / 1000) 1
      | Some n \<Rightarrow> max (sn_begin n - (m_pos s + 0.2) - real e / 1000) 1)"
  by (simp add: run_onset_def Let_def calcNext_m_delay max_def split: option.split)

lemma plays_append [simp]: "plays (xs @ ys) = plays xs @ plays ys"
  by (simp add: plays_def)

lemma plays_simps [simp]:
  "plays [] = []" "plays (Play k bs # tr) = Play k bs # plays tr" "plays (Render k # tr) = plays tr"
  by (simp_all add: plays_def)

lemma exec_Nil: "exec g [] s = s"
  by (simp add: exec_def)

lemma exec_Cons: "exec g (ev # evs) s = exec g evs (apply_event g ev s)"
  by (simp add: exec_def)

text \<open>
  Claim C2. When the worker's wait expires and shutdown has not been requested, the
  worker emits the active buffer, flips the active index, moves the position on by 0.2
  seconds, runs the schedule pass at the new position and raises the delay to at least
  1 second: the delay of the wait that follows is the larger of 1 and the delay to the
  next note, hence never below 1 second.
\<close>

theorem C2_onset_cooldown:
  assumes "thread s = Waiting" and "\<not> m_quit s" and "m_delay s * 1000 < real ULONG_MAX"
    and "m_curBuffer s = 0 \<or> m_curBuffer s = 1"
  shows "let s' = exec g [TimedOut, Advance a, Advance e] s in
           thread s' = LoopTest
         \<and> plays (trace s') = plays (trace s) @ [Play (m_curBuffer s) (m_soundData s ! nat (m_curBuffer s))]
         \<and> m_curBuffer s' = 1 - m_curBuffer s
         \<and> m_pos s' = m_pos s + 0.2
         \<and> m_delay s' =
              (case calcNext_scan (m_pos s + 0.2) (m_notes s) of
                 None \<Rightarrow> max (real ULONG_MAX / 1000) 1
               | Some n \<Rightarrow> max (sn_begin n - (m_pos s + 0.2) - real e / 1000) 1)
         \<and> 1 \<le> m_delay s'
         \<and> thread (exec g [Advance b] s') = Waiting
         \<and> m_delay (exec g [Advance b] s') = m_delay s'"
proof -
  define s1 where "s1 = s\<lparr>thread := Onset\<rparr>"
  have ex: "exec g [TimedOut, Advance a, Advance e] s = (run_onset g e s1)\<lparr>thread := LoopTest\<rparr>"
    using assms(1,2,3) by (simp add: s1_def exec_Cons exec_Nil)
  have f: "m_curBuffer s1 = m_curBuffer s" "m_pos s1 = m_pos s" "m_notes s1 = m_notes s"
    "m_soundData s1 = m_soundData s" "trace s1 = trace s" "m_noteBegin s1 = m_noteBegin s"
    "m_quit s1 = m_quit s"
    by (simp_all add: s1_def)
  have d: "m_delay (run_onset g e s1) =
              (case calcNext_scan (m_pos s + 0.2) (m_notes s) of
                 None \<Rightarrow> max (real ULONG_MAX / 1000) 1
               | Some n \<Rightarrow> max (sn_begin n - (m_pos s + 0.2) - real e / 1000) 1)"
    by (simp only: run_onset_m_delay f)
  then have d1: "1 \<le> m_delay (run_onset g e s1)"
    by (simp split: option.split)
  have p: "plays (trace (run_onset g e s1))
      = plays (trace s) @ [Play (m_curBuffer s) (m_soundData s ! nat (m_curBuffer s))]"
    by (simp add: run_onset_trace f split: option.split)
  have c: "m_curBuffer (run_onset g e s1) = 1 - m_curBuffer s"
    using c_rem_flip [OF assms(4)] by (simp add: run_onset_m_curBuffer f)
  have q: "\<not> m_quit (run_onset g e s1)" using assms(2) by (simp add: f)
  show ?thesis
    unfolding Let_def ex using d d1 p c q by (simp add: run_onset_m_pos f exec_Cons exec_Nil)
qed


theorem C2_onset_cooldown_witness:
  "thread (Synth_new\<lparr>thread := Waiting, m_delay := 1/2, m_pos := 1,
       m_notes := [\<lparr>sn_note = 60, sn_begin = 1, sn_length = 1/4\<rparr>,
                   \<lparr>sn_note = 62, sn_begin = 3/2, sn_length = 1/4\<rparr>]\<rparr>) = Waiting
   \<and> m_delay (exec flat_scale [TimedOut, Advance 0, Advance 0]
        (Synth_new\<lparr>thread := Waiting, m_delay := 1/2, m_pos := 1,
           m_notes := [\<lparr>sn_note = 60, sn_begin = 1, sn_length = 1/4\<rparr>,
                       \<lparr>sn_note = 62, sn_begin = 3/2, sn_length = 1/4\<rparr>]\<rparr>)) = 1
   \<and> plays (trace (exec flat_scale [TimedOut, Advance 0, Advance 0]
        (Synth_new\<lparr>thread := Waiting, m_delay := 1/2, m_pos := 1,
           m_notes := [\<lparr>sn_note = 60, sn_begin = 1, sn_length = 1/4\<rparr>,
                       \<lparr>sn_note = 62, sn_begin = 3/2, sn_length = 1/4\<rparr>]\<rparr>))) = [Play 0 []]"
proof -
  define s0 where "s0 = Synth_new\<lparr>thread := Waiting, m_delay := 1/2, m_pos := 1,
       m_notes := [\<lparr>sn_note = 60, sn_begin = 1, sn_length = 1/4\<rparr>,
                   \<lparr>sn_note = 62, sn_begin = 3/2, sn_length = 1/4\<rparr>]\<rparr>"
  have h: "thread s0 = Waiting" "\<not> m_quit s0" "m_delay s0 * 1000 < real ULONG_MAX"
    "m_curBuffer s0 = 0 \<or> m_curBuffer s0 = 1"
    by (simp_all add: s0_def Synth_new_def ULONG_MAX_def)
  have v: "m_pos s0 = 1" "m_notes s0 = [\<lparr>sn_note = 60, sn_begin = 1, sn_length = 1/4\<rparr>,
                   \<lparr>sn_note = 62, sn_begin = 3/2, sn_length = 1/4\<rparr>]"
    "trace s0 = []" "m_curBuffer s0 = 0" "m_soundData s0 = [[], []]"
    by (simp_all add: s0_def Synth_new_def)
  from C2_onset_cooldown [OF h, of flat_scale 0 0 0] h(1) show ?thesis
    unfolding Let_def s0_def [symmetric] by (simp add: v)
qed

subsection \<open>No upcoming note\<close>

lemma idle_state:
  "exec g [Tick 0 [], Advance a, Advance b] Synth_new
     = Synth_new\<lparr> m_delay := real ULONG_MAX / 1000, thread := Waiting \<rparr>"
  by (simp add: exec_Cons exec_Nil tick_def calcNext_def Let_def Synth_new_def isRunning_def)

lemma wait_time_sentinel: "m_delay s = real ULONG_MAX / 1000 \<Longrightarrow> wait_time s = 2 ^ 64"
  using to_double_ULONG_MAX by (simp add: wait_time_def)

text \<open>
  Claim C7 reads: when no note of the list begins at or after the position (the empty
  list included), the schedule pass sets the delay to a sentinel that stands for no
  time-out, renders nothing and leaves the last-rendered onset and the buffers as they
  are; the worker then waits indefinitely and emits nothing until a later tick brings an
  upcoming note. The schedule pass does as claimed; the wait does not. For a fresh
  object and \<^verbatim>\<open>tick(0, [])\<close> the worker reaches the wait with the delay
  \<^verbatim>\<open>ULONG_MAX / 1000.0\<close>, nothing rendered and nothing emitted. The time handed to the
  wait, \<^verbatim>\<open>m_delay * 1000\<close> (line 75), is the \<^verbatim>\<open>double\<close> \<open>2\<^sup>6\<^sup>4\<close>, also when the
  sentinel itself is rounded to a \<^verbatim>\<open>double\<close>: it exceeds \<^verbatim>\<open>ULONG_MAX\<close>, the one time for
  which the wait has no time-out, and its conversion to \<^verbatim>\<open>unsigned long\<close> is undefined.
  When the wait returns on its time, the worker emits the empty buffer of slot 0 and
  comes back to the wait with the same time; when it returns on its time again, the
  worker emits the empty buffer of slot 1; no tick has come in between.
\<close>

theorem C7_sentinel_wait:
  "let s = exec g [Tick 0 [], Advance 0, Advance 0] Synth_new;
       s' = exec g [TimedOut, Advance 0, Advance 0, Advance 0] s;
       s'' = exec g [TimedOut, Advance 0, Advance 0, Advance 0] s'
   in thread s = Waiting \<and> \<not> m_quit s
    \<and> m_delay s = real ULONG_MAX / 1000
    \<and> trace s = [] \<and> m_soundData s = [[], []] \<and> m_noteBegin s = 0
    \<and> wait_time s = 2 ^ 64
    \<and> real ULONG_MAX < wait_time s
    \<and> to_unsigned_long (wait_time s) = None
    \<and> to_double (to_double (to_double (real ULONG_MAX) / 1000) * 1000) = 2 ^ 64
    \<and> thread s' = Waiting \<and> wait_time s' = 2 ^ 64
    \<and> plays (trace s') = [Play 0 []]
    \<and> thread s'' = Waiting \<and> wait_time s'' = 2 ^ 64
    \<and> plays (trace s'') = [Play 0 [], Play 1 []]"
proof -
  define s where "s = exec g [Tick 0 [], Advance 0, Advance 0] Synth_new"
  define s' where "s' = exec g [TimedOut, Advance 0, Advance 0, Advance 0] s"
  define s'' where "s'' = exec g [TimedOut, Advance 0, Advance 0, Advance 0] s'"
  have s: "s = Synth_new\<lparr> m_delay := real ULONG_MAX / 1000, thread := Waiting \<rparr>"
    unfolding s_def by (rule idle_state)
  have m: "max (real ULONG_MAX / 1000) 1 = real ULONG_MAX / 1000"
    by (simp add: ULONG_MAX_def)
  have s1: "s' = Synth_new\<lparr> m_delay := real ULONG_MAX / 1000, m_pos := 0.2, m_curBuffer := 1,
                thread := Waiting, trace := [Play 0 []] \<rparr>"
    unfolding s'_def s
    by (simp add: exec_Cons exec_Nil run_onset_def calcNext_def Let_def Synth_new_def c_rem_def m)
  have s2: "s'' = Synth_new\<lparr> m_delay := real ULONG_MAX / 1000, m_pos := 0.2 + 0.2,
                m_curBuffer := 0, thread := Waiting, trace := [Play 0 [], Play 1 []] \<rparr>"
    unfolding s''_def s1
    by (simp add: exec_Cons exec_Nil run_onset_def calcNext_def Let_def Synth_new_def c_rem_def m)
  have w: "wait_time s = 2 ^ 64" "wait_time s' = 2 ^ 64" "wait_time s'' = 2 ^ 64"
    by (simp_all add: wait_time_sentinel s s1 s2)
  have u: "real ULONG_MAX < 2 ^ 64" by (simp add: ULONG_MAX_def)
  have n: "to_unsigned_long (2 ^ 64) = None"
    by (simp add: to_unsigned_long_def ULONG_MAX_def)
  have r: "to_double (to_double (to_double (real ULONG_MAX) / 1000) * 1000) = 2 ^ 64"
    by (simp only: to_double_ULONG_MAX to_double_sentinel to_double_sentinel_ms)
  have "thread s = Waiting" "\<not> m_quit s" "m_delay s = real ULONG_MAX / 1000" "trace s = []"
    "m_soundData s = [[], []]" "m_noteBegin s = 0" "thread s' = Waiting"
    "plays (trace s') = [Play 0 []]" "thread s'' = Waiting"
    "plays (trace s'') = [Play 0 [], Play 1 []]"
    by (simp_all add: s s1 s2 Synth_new_def)
  with w u n r show ?thesis
    unfolding Let_def s_def [symmetric] s'_def [symmetric] s''_def [symmetric] by simp
qed

subsection \<open>A first note at onset zero\<close>

lemma tick_Synth_new:
  "tick pos ns Synth_new = Synth_new\<lparr> m_pos := real_of_int pos / 1000, m_notes := ns, thread := Entry \<rparr>"
  by (simp add: tick_def Let_def isRunning_def Synth_new_def)

text \<open>
  Claim C10. The last-rendered onset of a fresh object is 0. When the first tick brings
  a list whose first upcoming note has onset exactly 0, the first schedule pass renders
  nothing, both buffers stay empty, and the buffer emitted when the wait expires is the
  empty byte array.
\<close>

theorem C10_zero_onset_not_rendered:
  assumes "calcNext_scan (real_of_int pos / 1000) ns = Some n" and "sn_begin n = 0"
    and "real_of_int (- pos) < real ULONG_MAX"
  shows "m_noteBegin Synth_new = 0
       \<and> trace (exec g [Advance e] (tick pos ns Synth_new)) = []
       \<and> m_soundData (exec g [Advance e] (tick pos ns Synth_new)) = [[], []]
       \<and> plays (trace (exec g [Advance e, Advance a, TimedOut, Advance b, Advance e']
                         (tick pos ns Synth_new))) = [Play 0 []]"
proof -
  define s0 where "s0 = tick pos ns Synth_new"
  have f0: "m_pos s0 = real_of_int pos / 1000" "m_notes s0 = ns" "thread s0 = Entry"
    "m_noteBegin s0 = 0" "trace s0 = []" "m_soundData s0 = [[], []]" "m_curBuffer s0 = 0"
    "\<not> m_quit s0"
    by (simp_all add: s0_def tick_Synth_new) (simp_all add: Synth_new_def)
  define s1 where "s1 = calcNext g e s0"
  have sc: "calcNext_scan (m_pos s0) (m_notes s0) = Some n"
    using assms(1) by (simp only: f0)
  have f1: "trace s1 = []" "m_soundData s1 = [[], []]" "m_curBuffer s1 = 0" "\<not> m_quit s1"
    "thread s1 = Entry"
    using sc assms(2) by (simp_all add: s1_def calcNext_trace calcNext_m_soundData f0)
  have d1: "m_delay s1 = max (- real_of_int pos / 1000 - real e / 1000) 0.001"
    using sc assms(2) by (simp add: s1_def calcNext_m_delay f0)
  have "m_delay s1 * 1000 = max (- real_of_int pos - real e) 1"
    unfolding d1 by (simp add: max_def field_simps)
  moreover have "- real_of_int pos - real e < real ULONG_MAX"
    using assms(3) by simp
  moreover have "1 < real ULONG_MAX" using ULONG_MAX_pos by simp
  ultimately have fin: "m_delay s1 * 1000 < real ULONG_MAX" by simp
  have e1: "exec g [Advance e] s0 = s1\<lparr>thread := LoopTest\<rparr>"
    by (simp add: f0 s1_def exec_Cons exec_Nil)
  have e5: "exec g [Advance e, Advance a, TimedOut, Advance b, Advance e'] s0
              = (run_onset g e' (s1\<lparr>thread := Onset\<rparr>))\<lparr>thread := LoopTest\<rparr>"
    using fin by (simp add: f0 f1 s1_def [symmetric] exec_Cons exec_Nil)
  have "plays (trace (run_onset g e' (s1\<lparr>thread := Onset\<rparr>))) = [Play 0 []]"
    by (simp add: run_onset_trace f1 split: option.split)
  then show ?thesis
    unfolding s0_def [symmetric] e1 e5 by (simp add: f1) (simp add: Synth_new_def)
qed

theorem C10_zero_onset_not_rendered_witness:
  "calcNext_scan (real_of_int 0 / 1000) [\<lparr>sn_note = 60, sn_begin = 0, sn_length = 1/2\<rparr>]
      = Some \<lparr>sn_note = 60, sn_begin = 0, sn_length = 1/2\<rparr>
   \<and> sn_begin \<lparr>sn_note = 60, sn_begin = 0, sn_length = 1/2\<rparr> = 0
   \<and> real_of_int (- 0) < real ULONG_MAX
   \<and> plays (trace (exec flat_scale [Advance 0, Advance 0, TimedOut, Advance 0, Advance 0]
                (tick 0 [\<lparr>sn_note = 60, sn_begin = 0, sn_length = 1/2\<rparr>] Synth_new)))
       = [Play 0 []]"
proof -
  have h: "calcNext_scan (real_of_int 0 / 1000) [\<lparr>sn_note = 60, sn_begin = 0, sn_length = 1/2\<rparr>]
      = Some \<lparr>sn_note = 60, sn_begin = 0, sn_length = 1/2\<rparr>"
    "sn_begin \<lparr>sn_note = 60, sn_begin = 0, sn_length = 1/2\<rparr> = 0"
    "real_of_int (- 0) < real ULONG_MAX"
    by (simp_all add: ULONG_MAX_def)
  from C10_zero_onset_not_rendered [OF h, of flat_scale 0 0 0 0] h show ?thesis
    by blast
qed

subsection \<open>Shutdown\<close>

lemma stop_idem: "stop (stop s) = stop s"
  by (simp add: stop_def)

lemma apply_event_m_quit: "m_quit s \<Longrightarrow> m_quit (apply_event g ev s)"
proof (cases ev)
  case (Tick pos ns)
  then show "m_quit s \<Longrightarrow> m_quit (apply_event g ev s)"
    by (simp add: tick_def Let_def)
next
  case Stop
  then show "m_quit s \<Longrightarrow> m_quit (apply_event g ev s)" by (simp add: stop_def)
next
  case Woken
  then show "m_quit s \<Longrightarrow> m_quit (apply_event g ev s)" by (cases "thread s") simp_all
next
  case TimedOut
  then show "m_quit s \<Longrightarrow> m_quit (apply_event g ev s)" by (cases "thread s") simp_all
next
  case (Advance e)
  then show "m_quit s \<Longrightarrow> m_quit (apply_event g ev s)" by (cases "thread s") simp_all
qed

lemma exec_m_quit: "m_quit s \<Longrightarrow> m_quit (exec g evs s)"
  by (induction evs arbitrary: s) (simp_all add: exec_Nil exec_Cons apply_event_m_quit)

lemma plays_calcNext [simp]: "plays (trace (calcNext g e s)) = plays (trace s)"
  by (simp add: calcNext_trace split: option.split)

lemma quit_step:
  assumes "m_quit s" and "thread s \<noteq> Onset"
  shows "thread (apply_event g ev s) \<noteq> Onset \<and> plays (trace (apply_event g ev s)) = plays (trace s)"
proof (cases ev)
  case (Tick pos ns)
  with assms show ?thesis by (simp add: tick_def Let_def isRunning_def)
next
  case Stop
  with assms show ?thesis by (simp add: stop_def)
next
  case Woken
  with assms show ?thesis by (cases "thread s") simp_all
next
  case TimedOut
  with assms show ?thesis by (cases "thread s") simp_all
next
  case (Advance e)
  with assms show ?thesis by (cases "thread s") simp_all
qed

lemma quit_exec:
  "m_quit s \<Longrightarrow> thread s \<noteq> Onset \<Longrightarrow> plays (trace (exec g evs s)) = plays (trace s)"
proof (induction evs arbitrary: s)
  case Nil
  show ?case by (simp add: exec_Nil)
next
  case (Cons ev evs)
  from quit_step [OF Cons.prems, of g ev]
  have t: "thread (apply_event g ev s) \<noteq> Onset"
    and p: "plays (trace (apply_event g ev s)) = plays (trace s)"
    by simp_all
  from Cons.IH [OF apply_event_m_quit [OF Cons.prems(1)] t] show ?case
    by (simp add: exec_Cons p)
qed

lemma quit_onset_step:
  assumes "m_quit s" and "thread s = Onset"
  shows "(thread (apply_event g ev s) = Onset \<and> plays (trace (apply_event g ev s)) = plays (trace s))
       \<or> (thread (apply_event g ev s) \<noteq> Onset
           \<and> length (plays (trace (apply_event g ev s))) = Suc (length (plays (trace s))))"
proof (cases ev)
  case (Tick pos ns)
  with assms show ?thesis by (simp add: tick_def Let_def isRunning_def)
next
  case Stop
  with assms show ?thesis by (simp add: stop_def)
next
  case Woken
  with assms show ?thesis by simp
next
  case TimedOut
  with assms show ?thesis by simp
next
  case (Advance e)
  with assms show ?thesis by (simp add: run_onset_trace split: option.split)
qed

lemma quit_onset_exec:
  "m_quit s \<Longrightarrow> thread s = Onset \<Longrightarrow>
     length (plays (trace (exec g evs s))) \<le> Suc (length (plays (trace s)))"
proof (induction evs arbitrary: s)
  case Nil
  show ?case by (simp add: exec_Nil)
next
  case (Cons ev evs)
  have q: "m_quit (apply_event g ev s)" using Cons.prems(1) by (rule apply_event_m_quit)
  from quit_onset_step [OF Cons.prems, of g ev] show ?case
  proof
    assume a: "thread (apply_event g ev s) = Onset
                 \<and> plays (trace (apply_event g ev s)) = plays (trace s)"
    with Cons.IH [OF q] show ?thesis by (simp add: exec_Cons)
  next
    assume a: "thread (apply_event g ev s) \<noteq> Onset
           \<and> length (plays (trace (apply_event g ev s))) = Suc (length (plays (trace s)))"
    with quit_exec [OF q, of g evs] show ?thesis by (simp add: exec_Cons)
  qed
qed

text \<open>
  Claim C6, as amended. \<^verbatim>\<open>stop()\<close> sets the shutdown flag (its wake-up is the outcome
  \<open>Woken\<close> of the wait) and is idempotent; the flag is never cleared. After any wake,
  early or by expiry, the worker's next move is the test of the flag, and with the flag
  set it leaves the loop without emitting: a pending onset is skipped, and a schedule
  pass under way merely completes before the loop test ends the thread. So once
  shutdown is requested no further buffer is emitted, unless the worker had already
  passed the test of line 84 and not yet emitted: then that one buffer is still
  emitted, and no other.
\<close>

theorem C6_shutdown:
  "stop (stop s) = stop s
   \<and> m_quit (stop s)
   \<and> m_quit (exec g evs (stop s))
   \<and> (thread s \<noteq> Onset \<longrightarrow> plays (trace (exec g evs (stop s))) = plays (trace s))
   \<and> (thread s = Onset \<longrightarrow>
         length (plays (trace (exec g evs (stop s)))) \<le> Suc (length (plays (trace s))))
   \<and> (thread s = Waiting \<longrightarrow> thread (exec g [Woken, Advance a] (stop s)) = Finished)
   \<and> (thread s = Waiting \<and> m_delay s * 1000 < real ULONG_MAX \<longrightarrow>
         thread (exec g [TimedOut, Advance a] (stop s)) = Finished)
   \<and> (thread s = LoopTest \<or> thread s = AfterWake \<or> thread s = AfterTimeout \<longrightarrow>
         thread (exec g [Advance a] (stop s)) = Finished)
   \<and> (thread s = Entry \<or> thread s = Recalc \<longrightarrow>
         exec g [Advance e, Advance a] (stop s) = (calcNext g e (stop s))\<lparr>thread := Finished\<rparr>)
   \<and> (thread s = Onset \<longrightarrow> thread (exec g [Advance e, Advance a] (stop s)) = Finished)"
proof -
  have q: "m_quit (stop s)" by (simp add: stop_def)
  have f: "thread (stop s) = thread s" "trace (stop s) = trace s" "m_delay (stop s) = m_delay s"
    by (simp_all add: stop_def)
  have 1: "stop (stop s) = stop s" by (rule stop_idem)
  have 3: "m_quit (exec g evs (stop s))" using q by (rule exec_m_quit)
  have 4: "plays (trace (exec g evs (stop s))) = plays (trace s)" if "thread s \<noteq> Onset"
    using quit_exec [OF q, of g evs] that by (simp add: f)
  have 5: "length (plays (trace (exec g evs (stop s)))) \<le> Suc (length (plays (trace s)))"
    if "thread s = Onset"
    using quit_onset_exec [OF q, of g evs] that by (simp add: f)
  have 6: "thread (exec g [Woken, Advance a] (stop s)) = Finished" if "thread s = Waiting"
    using that q by (simp add: exec_Cons exec_Nil f)
  have 7: "thread (exec g [TimedOut, Advance a] (stop s)) = Finished"
    if "thread s = Waiting \<and> m_delay s * 1000 < real ULONG_MAX"
    using that q by (simp add: exec_Cons exec_Nil f)
  have 8: "thread (exec g [Advance a] (stop s)) = Finished"
    if "thread s = LoopTest \<or> thread s = AfterWake \<or> thread s = AfterTimeout"
    using that q by (auto simp: exec_Cons exec_Nil f)
  have 9: "exec g [Advance e, Advance a] (stop s) = (calcNext g e (stop s))\<lparr>thread := Finished\<rparr>"
    if "thread s = Entry \<or> thread s = Recalc"
    using that q by (auto simp: exec_Cons exec_Nil f)
  have 10: "thread (exec g [Advance e, Advance a] (stop s)) = Finished" if "thread s = Onset"
    using that q by (simp add: exec_Cons exec_Nil f)
  from q 1 3 4 5 6 7 8 9 10 show ?thesis by blast
qed

text \<open>
  A note at 1 second. The wait expires, the worker finds the flag clear at line 84,
  \<^verbatim>\<open>stop()\<close> is called, and the worker goes on to emit the buffer at line 85.
\<close>

theorem C6_counterexample:
  "m_quit (exec flat_scale [Tick 0 [\<lparr>sn_note = 60, sn_begin = 1, sn_length = 1/2\<rparr>],
        Advance 0, Advance 0, TimedOut, Advance 0, Stop] Synth_new)
   \<and> plays (trace (exec flat_scale [Tick 0 [\<lparr>sn_note = 60, sn_begin = 1, sn_length = 1/2\<rparr>],
        Advance 0, Advance 0, TimedOut, Advance 0, Stop] Synth_new)) = []
   \<and> plays (trace (exec flat_scale [Tick 0 [\<lparr>sn_note = 60, sn_begin = 1, sn_length = 1/2\<rparr>],
        Advance 0, Advance 0, TimedOut, Advance 0, Stop, Advance 0] Synth_new))
       = [Play 0 (createBuffer_bytes flat_scale 0 (1/2))]"
  by (simp add: exec_Cons exec_Nil tick_def stop_def calcNext_def createBuffer_def run_onset_def
       Let_def Synth_new_def isRunning_def c_rem_def ULONG_MAX_def)

theorem C6_shutdown_witness:
  "thread (exec flat_scale [Tick 0 [], Advance 0, Advance 0] Synth_new) = Waiting
   \<and> plays (trace (exec flat_scale [Woken, Advance 0, Tick 5 [], Advance 0]
         (stop (exec flat_scale [Tick 0 [], Advance 0, Advance 0] Synth_new)))) = []
   \<and> thread (exec flat_scale [Woken, Advance 0]
         (stop (exec flat_scale [Tick 0 [], Advance 0, Advance 0] Synth_new))) = Finished
   \<and> thread (exec flat_scale [Tick 0 [\<lparr>sn_note = 60, sn_begin = 1, sn_length = 1/2\<rparr>],
        Advance 0, Advance 0, TimedOut, Advance 0] Synth_new) = Onset
   \<and> length (plays (trace (exec flat_scale [Advance 0, Advance 0, Tick 9 []]
         (stop (exec flat_scale [Tick 0 [\<lparr>sn_note = 60, sn_begin = 1, sn_length = 1/2\<rparr>],
            Advance 0, Advance 0, TimedOut, Advance 0] Synth_new))))) \<le> Suc 0
   \<and> thread (exec flat_scale [Advance 0, Advance 0]
         (stop (exec flat_scale [Tick 0 [\<lparr>sn_note = 60, sn_begin = 1, sn_length = 1/2\<rparr>],
            Advance 0, Advance 0, TimedOut, Advance 0] Synth_new))) = Finished
   \<and> thread (exec flat_scale [Tick 0 [\<lparr>sn_note = 60, sn_begin = 1, sn_length = 1/2\<rparr>],
        Advance 0, Advance 0] Synth_new) = Waiting
   \<and> thread (exec flat_scale [TimedOut, Advance 0]
         (stop (exec flat_scale [Tick 0 [\<lparr>sn_note = 60, sn_begin = 1, sn_length = 1/2\<rparr>],
            Advance 0, Advance 0] Synth_new))) = Finished
   \<and> thread (exec flat_scale [Tick 0 [], Advance 0] Synth_new) = LoopTest
   \<and> thread (exec flat_scale [Advance 0]
         (stop (exec flat_scale [Tick 0 [], Advance 0] Synth_new))) = Finished
   \<and> thread (exec flat_scale [Tick 0 []] Synth_new) = Entry
   \<and> thread (exec flat_scale [Advance 0, Advance 0]
         (stop (exec flat_scale [Tick 0 []] Synth_new))) = Finished"
proof -
  define sw where "sw = exec flat_scale [Tick 0 [], Advance 0, Advance 0] Synth_new"
  define so where "so = exec flat_scale [Tick 0 [\<lparr>sn_note = 60, sn_begin = 1, sn_length = 1/2\<rparr>],
        Advance 0, Advance 0, TimedOut, Advance 0] Synth_new"
  define sf where "sf = exec flat_scale [Tick 0 [\<lparr>sn_note = 60, sn_begin = 1, sn_length = 1/2\<rparr>],
        Advance 0, Advance 0] Synth_new"
  define sl where "sl = exec flat_scale [Tick 0 [], Advance 0] Synth_new"
  define se where "se = exec flat_scale [Tick 0 []] Synth_new"
  have w: "thread sw = Waiting" "trace sw = []"
    by (simp_all add: sw_def exec_Cons exec_Nil tick_def calcNext_def Let_def Synth_new_def
         isRunning_def)
  have o: "thread so = Onset" "plays (trace so) = []"
    by (simp_all add: so_def exec_Cons exec_Nil tick_def calcNext_def createBuffer_def Let_def
         Synth_new_def isRunning_def ULONG_MAX_def)
  have f: "thread sf = Waiting" "m_delay sf * 1000 < real ULONG_MAX"
    by (simp_all add: sf_def exec_Cons exec_Nil tick_def calcNext_def createBuffer_def Let_def
         Synth_new_def isRunning_def ULONG_MAX_def)
  have l: "thread sl = LoopTest"
    by (simp add: sl_def exec_Cons exec_Nil tick_def calcNext_def Let_def Synth_new_def
         isRunning_def)
  have e: "thread se = Entry"
    by (simp add: se_def exec_Cons exec_Nil tick_def Let_def Synth_new_def isRunning_def)
  from C6_shutdown [of sw flat_scale "[Woken, Advance 0, Tick 5 [], Advance 0]" 0 0] w
  have 1: "plays (trace (exec flat_scale [Woken, Advance 0, Tick 5 [], Advance 0] (stop sw))) = []"
    and 2: "thread (exec flat_scale [Woken, Advance 0] (stop sw)) = Finished"
    by simp_all
  from C6_shutdown [of so flat_scale "[Advance 0, Advance 0, Tick 9 []]" 0 0] o
  have 3: "length (plays (trace (exec flat_scale [Advance 0, Advance 0, Tick 9 []] (stop so)))) \<le> Suc 0"
    and 4: "thread (exec flat_scale [Advance 0, Advance 0] (stop so)) = Finished"
    by simp_all
  from C6_shutdown [of sf flat_scale "[]" 0 0] f
  have 5: "thread (exec flat_scale [TimedOut, Advance 0] (stop sf)) = Finished"
    by blast
  from C6_shutdown [of sl flat_scale "[]" 0 0] l
  have 6: "thread (exec flat_scale [Advance 0] (stop sl)) = Finished"
    by blast
  from C6_shutdown [of se flat_scale "[]" 0 0] e
  have "exec flat_scale [Advance 0, Advance 0] (stop se)
          = (calcNext flat_scale 0 (stop se))\<lparr>thread := Finished\<rparr>"
    by blast
  then have 7: "thread (exec flat_scale [Advance 0, Advance 0] (stop se)) = Finished"
    by simp
  from w o f l e 1 2 3 4 5 6 7 show ?thesis
    unfolding sw_def so_def sf_def sl_def se_def by blast
qed

subsection \<open>Rendering only for a new onset\<close>

lemma renders_append [simp]: "renders (xs @ ys) = renders xs @ renders ys"
  by (simp add: renders_def)

lemma renders_simps [simp]:
  "renders [] = []" "renders (Play k bs # tr) = renders tr" "renders (Render k # tr) = Render k # renders tr"
  by (simp_all add: renders_def)

lemma calcNext_scan_stable:
  "calcNext_scan p0 ns = Some n \<Longrightarrow> p0 \<le> p \<Longrightarrow> p \<le> sn_begin n \<Longrightarrow> calcNext_scan p ns = Some n"
proof (induction ns)
  case Nil
  then show ?case by simp
next
  case (Cons a ns)
  show ?case
  proof (cases "sn_begin a < p0")
    case True
    with Cons show ?thesis by simp
  next
    case False
    with Cons.prems have "a = n" by simp
    with Cons.prems show ?thesis by simp
  qed
qed

lemma tick_fields [simp]:
  "m_pos (tick pos ns s) = real_of_int pos / 1000" "m_notes (tick pos ns s) = ns"
  "m_noteBegin (tick pos ns s) = m_noteBegin s" "m_soundData (tick pos ns s) = m_soundData s"
  "trace (tick pos ns s) = trace s" "m_curBuffer (tick pos ns s) = m_curBuffer s"
  "m_quit (tick pos ns s) = m_quit s" "m_delay (tick pos ns s) = m_delay s"
  by (simp_all add: tick_def Let_def)

lemma tick_pass_same_onset:
  assumes "calcNext_scan (real_of_int p / 1000) ns = Some n" and "m_noteBegin s = sn_begin n"
  shows "trace (tick_pass g ns (p, e) s) = trace s"
    and "m_soundData (tick_pass g ns (p, e) s) = m_soundData s"
    and "m_noteBegin (tick_pass g ns (p, e) s) = sn_begin n"
    and "m_delay (tick_pass g ns (p, e) s) = max (sn_begin n - real_of_int p / 1000 - real e / 1000) 0.001"
  using assms
  by (simp_all add: tick_pass_def calcNext_trace calcNext_m_soundData calcNext_m_delay
        calcNext_m_noteBegin_Some)

lemma tick_pass_fold:
  assumes "calcNext_scan (real_of_int p0 / 1000) ns = Some n"
    and "\<forall>pe\<in>set pes. p0 \<le> fst pe \<and> real_of_int (fst pe) / 1000 \<le> sn_begin n"
    and "m_noteBegin s = sn_begin n"
  shows "trace (fold (tick_pass g ns) pes s) = trace s
       \<and> m_soundData (fold (tick_pass g ns) pes s) = m_soundData s
       \<and> m_noteBegin (fold (tick_pass g ns) pes s) = sn_begin n
       \<and> (if pes = [] then True
          else m_delay (fold (tick_pass g ns) pes s)
                 = max (sn_begin n - real_of_int (fst (last pes)) / 1000
                          - real (snd (last pes)) / 1000) 0.001)"
  using assms(2,3)
proof (induction pes arbitrary: s)
  case Nil
  then show ?case by simp
next
  case (Cons pe pes)
  obtain p e where pe: "pe = (p, e)" by (cases pe)
  from Cons.prems(1) pe have b: "p0 \<le> p" "real_of_int p / 1000 \<le> sn_begin n"
    and rest: "\<forall>pe\<in>set pes. p0 \<le> fst pe \<and> real_of_int (fst pe) / 1000 \<le> sn_begin n"
    by simp_all
  from b(1) have "real_of_int p0 / 1000 \<le> real_of_int p / 1000" by simp
  from calcNext_scan_stable [OF assms(1) this b(2)]
  have sc: "calcNext_scan (real_of_int p / 1000) ns = Some n" .
  note t = tick_pass_same_onset [OF sc Cons.prems(2), of g e]
  from Cons.IH [OF rest t(3)] show ?case
    by (simp add: pe t)
qed

text \<open>
  Claim C4. On a schedule pass that finds an upcoming note, a buffer is rendered (the
  active slot rewritten with the tone of that note) if and only if the note's onset
  differs from the stored last-rendered onset, which then becomes that onset. Hence
  after a pass at position \<open>p0\<close> that found the note \<open>n'\<close>, passes following ticks at
  positions from \<open>p0\<close> up to the onset of \<open>n'\<close>, with the same note list, render
  nothing and leave the buffers as they are; only the delay is computed anew.
\<close>

theorem C4_render_only_new_onset:
  "(calcNext_scan (m_pos s) (m_notes s) = Some n \<longrightarrow>
      renders (trace (calcNext g e s))
        = renders (trace s) @ (if sn_begin n \<noteq> m_noteBegin s then [Render (m_curBuffer s)] else [])
    \<and> m_soundData (calcNext g e s)
        = (if sn_begin n \<noteq> m_noteBegin s
           then (m_soundData s)[nat (m_curBuffer s) :=
                  createBuffer_bytes g (c_rem (sn_note n) 12) (sn_length n)]
           else m_soundData s)
    \<and> m_noteBegin (calcNext g e s) = sn_begin n)
   \<and> (calcNext_scan (real_of_int p0 / 1000) ns = Some n'
        \<and> (\<forall>pe\<in>set pes. p0 \<le> fst pe \<and> real_of_int (fst pe) / 1000 \<le> sn_begin n') \<longrightarrow>
      trace (fold (tick_pass g ns) pes (tick_pass g ns (p0, e0) s'))
        = trace (tick_pass g ns (p0, e0) s')
    \<and> m_soundData (fold (tick_pass g ns) pes (tick_pass g ns (p0, e0) s'))
        = m_soundData (tick_pass g ns (p0, e0) s')
    \<and> m_noteBegin (fold (tick_pass g ns) pes (tick_pass g ns (p0, e0) s')) = sn_begin n'
    \<and> (if pes = [] then True
        else m_delay (fold (tick_pass g ns) pes (tick_pass g ns (p0, e0) s'))
               = max (sn_begin n' - real_of_int (fst (last pes)) / 1000
                        - real (snd (last pes)) / 1000) 0.001))"
proof -
  have a: "renders (trace (calcNext g e s))
        = renders (trace s) @ (if sn_begin n \<noteq> m_noteBegin s then [Render (m_curBuffer s)] else [])
    \<and> m_soundData (calcNext g e s)
        = (if sn_begin n \<noteq> m_noteBegin s
           then (m_soundData s)[nat (m_curBuffer s) :=
                  createBuffer_bytes g (c_rem (sn_note n) 12) (sn_length n)]
           else m_soundData s)
    \<and> m_noteBegin (calcNext g e s) = sn_begin n"
    if "calcNext_scan (m_pos s) (m_notes s) = Some n"
    using that by (simp add: calcNext_trace calcNext_m_soundData calcNext_m_noteBegin_Some)
  have b: "trace (fold (tick_pass g ns) pes (tick_pass g ns (p0, e0) s'))
        = trace (tick_pass g ns (p0, e0) s')
    \<and> m_soundData (fold (tick_pass g ns) pes (tick_pass g ns (p0, e0) s'))
        = m_soundData (tick_pass g ns (p0, e0) s')
    \<and> m_noteBegin (fold (tick_pass g ns) pes (tick_pass g ns (p0, e0) s')) = sn_begin n'
    \<and> (if pes = [] then True
        else m_delay (fold (tick_pass g ns) pes (tick_pass g ns (p0, e0) s'))
               = max (sn_begin n' - real_of_int (fst (last pes)) / 1000
                        - real (snd (last pes)) / 1000) 0.001)"
    if h: "calcNext_scan (real_of_int p0 / 1000) ns = Some n'
        \<and> (\<forall>pe\<in>set pes. p0 \<le> fst pe \<and> real_of_int (fst pe) / 1000 \<le> sn_begin n')"
  proof -
    from h have sc: "calcNext_scan (real_of_int p0 / 1000) ns = Some n'"
      and al: "\<forall>pe\<in>set pes. p0 \<le> fst pe \<and> real_of_int (fst pe) / 1000 \<le> sn_begin n'"
      by simp_all
    have "m_noteBegin (tick_pass g ns (p0, e0) s') = sn_begin n'"
      using sc by (simp add: tick_pass_def calcNext_m_noteBegin_Some)
    from tick_pass_fold [OF sc al this, of g] show ?thesis .
  qed
  from a b show ?thesis by blast
qed


theorem C4_render_only_new_onset_witness:
  "calcNext_scan (real_of_int 0 / 1000)
       [\<lparr>sn_note = 60, sn_begin = 1, sn_length = 1/2\<rparr>, \<lparr>sn_note = 62, sn_begin = 2, sn_length = 1/2\<rparr>]
     = Some \<lparr>sn_note = 60, sn_begin = 1, sn_length = 1/2\<rparr>
   \<and> (0::int) \<le> 250 \<and> real_of_int 1000 / 1000 \<le> sn_begin \<lparr>sn_note = 60, sn_begin = 1, sn_length = 1/2\<rparr>
   \<and> renders (trace (calcNext flat_scale 0
         (tick 0 [\<lparr>sn_note = 60, sn_begin = 1, sn_length = 1/2\<rparr>,
                  \<lparr>sn_note = 62, sn_begin = 2, sn_length = 1/2\<rparr>] Synth_new))) = [Render 0]
   \<and> trace (fold (tick_pass flat_scale
                [\<lparr>sn_note = 60, sn_begin = 1, sn_length = 1/2\<rparr>, \<lparr>sn_note = 62, sn_begin = 2, sn_length = 1/2\<rparr>])
              [(250, 0), (500, 2), (1000, 0)]
              (tick_pass flat_scale
                [\<lparr>sn_note = 60, sn_begin = 1, sn_length = 1/2\<rparr>, \<lparr>sn_note = 62, sn_begin = 2, sn_length = 1/2\<rparr>]
                (0, 0) Synth_new))
       = trace (tick_pass flat_scale
                [\<lparr>sn_note = 60, sn_begin = 1, sn_length = 1/2\<rparr>, \<lparr>sn_note = 62, sn_begin = 2, sn_length = 1/2\<rparr>]
                (0, 0) Synth_new)
   \<and> m_delay (fold (tick_pass flat_scale
                [\<lparr>sn_note = 60, sn_begin = 1, sn_length = 1/2\<rparr>, \<lparr>sn_note = 62, sn_begin = 2, sn_length = 1/2\<rparr>])
              [(250, 0), (500, 2), (1000, 0)]
              (tick_pass flat_scale
                [\<lparr>sn_note = 60, sn_begin = 1, sn_length = 1/2\<rparr>, \<lparr>sn_note = 62, sn_begin = 2, sn_length = 1/2\<rparr>]
                (0, 0) Synth_new)) = 1 / 1000"
proof -
  define n1 where "n1 = \<lparr>sn_note = 60, sn_begin = 1, sn_length = 1/2\<rparr>"
  define ns where "ns = [n1, \<lparr>sn_note = 62, sn_begin = 2, sn_length = 1/2\<rparr>]"
  define pes :: "(int \<times> nat) list" where "pes = [(250, 0), (500, 2), (1000, 0)]"
  define s where "s = tick 0 ns Synth_new"
  have h1: "calcNext_scan (real_of_int 0 / 1000) ns = Some n1"
    by (simp add: ns_def n1_def)
  have h2: "\<forall>pe\<in>set pes. (0::int) \<le> fst pe \<and> real_of_int (fst pe) / 1000 \<le> sn_begin n1"
    by (simp add: pes_def n1_def)
  have h3: "calcNext_scan (m_pos s) (m_notes s) = Some n1"
    using h1 by (simp add: s_def)
  have v: "m_noteBegin s = 0" "trace s = []" "m_curBuffer s = 0"
    by (simp_all add: s_def Synth_new_def)
  have l: "pes \<noteq> []" "fst (last pes) = 1000" "snd (last pes) = 0" "sn_begin n1 = 1"
    by (simp_all add: pes_def n1_def)
  from C4_render_only_new_onset [of s n1 flat_scale 0 0 ns n1 pes 0 Synth_new] h1 h2 h3
  have "renders (trace (calcNext flat_scale 0 s))
          = renders (trace s) @ (if sn_begin n1 \<noteq> m_noteBegin s then [Render (m_curBuffer s)] else [])"
    and "trace (fold (tick_pass flat_scale ns) pes (tick_pass flat_scale ns (0, 0) Synth_new))
          = trace (tick_pass flat_scale ns (0, 0) Synth_new)"
    and "(if pes = [] then True
        else m_delay (fold (tick_pass flat_scale ns) pes (tick_pass flat_scale ns (0, 0) Synth_new))
               = max (sn_begin n1 - real_of_int (fst (last pes)) / 1000
                        - real (snd (last pes)) / 1000) 0.001)"
    by blast+
  then have "renders (trace (calcNext flat_scale 0 s)) = [Render 0]"
    and "trace (fold (tick_pass flat_scale ns) pes (tick_pass flat_scale ns (0, 0) Synth_new))
          = trace (tick_pass flat_scale ns (0, 0) Synth_new)"
    and "m_delay (fold (tick_pass flat_scale ns) pes (tick_pass flat_scale ns (0, 0) Synth_new)) = 1 / 1000"
    by (simp_all add: v l)
  moreover have "(0::int) \<le> 250 \<and> real_of_int 1000 / 1000 \<le> sn_begin n1"
    by (simp add: n1_def)
  ultimately show ?thesis
    using h1 unfolding s_def ns_def pes_def n1_def by blast
qed

subsection \<open>Rotation of the two buffers\<close>

lemma rotation_ok_append:
  "rotation_ok prev (tr @ tr') = (rotation_ok prev tr \<and> rotation_ok (last_played prev tr) tr')"
proof (induction tr arbitrary: prev)
  case Nil
  show ?case by simp
next
  case (Cons x tr)
  then show ?case by (cases x) auto
qed

lemma last_played_append:
  "last_played prev (tr @ tr') = last_played (last_played prev tr) tr'"
proof (induction tr arbitrary: prev)
  case Nil
  show ?case by simp
next
  case (Cons x tr)
  then show ?case by (cases x) auto
qed

lemma rot_inv_calcNext: "rot_inv s \<Longrightarrow> rot_inv (calcNext g e s)"
  by (auto simp: rot_inv_def calcNext_trace rotation_ok_append last_played_append split: option.split)

lemma rot_inv_thread [simp]: "rot_inv (s\<lparr>thread := l\<rparr>) = rot_inv s"
  by (simp add: rot_inv_def)

lemma rot_inv_run_onset: "rot_inv s \<Longrightarrow> rot_inv (run_onset g e s)"
proof -
  assume i: "rot_inv s"
  then have k: "m_curBuffer s = 0 \<or> m_curBuffer s = 1" by (simp add: rot_inv_def)
  from c_rem_flip [OF k] have fl: "c_rem (m_curBuffer s + 1) 2 = 1 - m_curBuffer s" .
  from i have r: "rotation_ok None (trace s)"
    and l: "last_played None (trace s) \<noteq> Some (m_curBuffer s)"
    by (simp_all add: rot_inv_def)
  have ne: "1 - m_curBuffer s \<noteq> m_curBuffer s" using k by auto
  have k': "1 - m_curBuffer s = 0 \<or> 1 - m_curBuffer s = 1" using k by auto
  show ?thesis
    unfolding rot_inv_def run_onset_trace run_onset_m_curBuffer fl
    using r l k k' ne
    by (simp add: rotation_ok_append last_played_append split: option.split)
qed

lemma rot_inv_step: "rot_inv s \<Longrightarrow> rot_inv (apply_event g ev s)"
proof (cases ev)
  case (Tick pos ns)
  then show "rot_inv s \<Longrightarrow> rot_inv (apply_event g ev s)"
    by (simp add: rot_inv_def)
next
  case Stop
  then show "rot_inv s \<Longrightarrow> rot_inv (apply_event g ev s)" by (simp add: rot_inv_def stop_def)
next
  case Woken
  then show "rot_inv s \<Longrightarrow> rot_inv (apply_event g ev s)" by (cases "thread s") simp_all
next
  case TimedOut
  then show "rot_inv s \<Longrightarrow> rot_inv (apply_event g ev s)" by (cases "thread s") simp_all
next
  case (Advance e)
  then show "rot_inv s \<Longrightarrow> rot_inv (apply_event g ev s)"
    by (cases "thread s") (simp_all add: rot_inv_calcNext rot_inv_run_onset)
qed

lemma rot_inv_exec: "rot_inv s \<Longrightarrow> rot_inv (exec g evs s)"
  by (induction evs arbitrary: s) (simp_all add: exec_Nil exec_Cons rot_inv_step)

lemma rot_inv_new: "rot_inv Synth_new"
  by (simp add: rot_inv_def Synth_new_def)

lemma last_played_slot:
  "rotation_ok prev tr \<Longrightarrow> last_played prev tr = Some j \<Longrightarrow> prev = Some j \<or> j = 0 \<or> j = 1"
proof (induction tr arbitrary: prev)
  case Nil
  then show ?case by simp
next
  case (Cons x tr)
  show ?case
  proof (cases x)
    case (Play k bs)
    with Cons.prems have "rotation_ok (Some k) tr" "last_played (Some k) tr = Some j" "k = 0 \<or> k = 1"
      by simp_all
    from Cons.IH [OF this(1,2)] this(3) show ?thesis by auto
  next
    case (Render k)
    with Cons.prems have "rotation_ok prev tr" "last_played prev tr = Some j"
      by simp_all
    from Cons.IH [OF this] show ?thesis .
  qed
qed

lemma rot_inv_keeps_last:
  assumes "rot_inv s" and "last_played None (trace s) = Some j"
    and "plays (trace (apply_event g ev s)) = plays (trace s)"
  shows "m_soundData (apply_event g ev s) ! nat j = m_soundData s ! nat j"
proof -
  from assms(1) have k: "m_curBuffer s = 0 \<or> m_curBuffer s = 1"
    and r: "rotation_ok None (trace s)"
    and l: "last_played None (trace s) \<noteq> Some (m_curBuffer s)"
    by (simp_all add: rot_inv_def)
  from last_played_slot [OF r assms(2)] have j: "j = 0 \<or> j = 1" by simp
  from l assms(2) have "j \<noteq> m_curBuffer s" by auto
  with j k have ne: "nat (m_curBuffer s) \<noteq> nat j" by auto
  have c: "m_soundData (calcNext g e s) ! nat j = m_soundData s ! nat j" for e
    using ne by (simp add: calcNext_m_soundData split: option.split)
  show ?thesis
  proof (cases ev)
    case (Tick pos ns)
    then show ?thesis by simp
  next
    case Stop
    then show ?thesis by (simp add: stop_def)
  next
    case Woken
    then show ?thesis by (cases "thread s") simp_all
  next
    case TimedOut
    then show ?thesis by (cases "thread s") simp_all
  next
    case (Advance e)
    show ?thesis
    proof (cases "thread s = Onset")
      case True
      with Advance assms(3) have False
        by (simp add: run_onset_trace split: option.splits)
      then show ?thesis ..
    next
      case False
      with Advance show ?thesis by (cases "thread s") (simp_all add: c)
    qed
  qed
qed

text \<open>
  Claim C5. In every run of a fresh object, whatever the foreground does: the active
  index is 0 or 1; consecutive emissions come from different slots, so the emitting slot
  alternates; every render between two emissions writes the slot that was not emitted
  last; and no step other than the next onset changes the content of the slot last
  emitted. The slot emitted at one onset is thus first rewritten by the schedule pass
  that follows the next onset, the one preparing the onset after that.
\<close>

theorem C5_buffer_rotation:
  "rotation_ok None (trace (exec g evs Synth_new))
   \<and> (m_curBuffer (exec g evs Synth_new) = 0 \<or> m_curBuffer (exec g evs Synth_new) = 1)
   \<and> last_played None (trace (exec g evs Synth_new)) \<noteq> Some (m_curBuffer (exec g evs Synth_new))
   \<and> (last_played None (trace (exec g evs Synth_new)) = Some j
        \<and> plays (trace (apply_event g ev (exec g evs Synth_new)))
             = plays (trace (exec g evs Synth_new)) \<longrightarrow>
       m_soundData (apply_event g ev (exec g evs Synth_new)) ! nat j
         = m_soundData (exec g evs Synth_new) ! nat j)"
  using rot_inv_exec [OF rot_inv_new, of g evs]
    rot_inv_keeps_last [OF rot_inv_exec [OF rot_inv_new, of g evs], of j g ev]
  by (simp add: rot_inv_def)

theorem C5_buffer_rotation_witness:
  "trace (exec flat_scale
     [Tick 0 [\<lparr>sn_note = 60, sn_begin = 1, sn_length = 1/2\<rparr>, \<lparr>sn_note = 62, sn_begin = 2, sn_length = 1/2\<rparr>],
      Advance 0, Advance 0,
      Tick 1000 [\<lparr>sn_note = 60, sn_begin = 1, sn_length = 1/2\<rparr>, \<lparr>sn_note = 62, sn_begin = 2, sn_length = 1/2\<rparr>],
      Woken, Advance 0, Advance 0, Advance 0, TimedOut, Advance 0, Advance 0, Advance 0,
      Tick 1300 [\<lparr>sn_note = 64, sn_begin = 3, sn_length = 1/4\<rparr>], Woken, Advance 0] Synth_new)
     = [Render 0, Play 0 (createBuffer_bytes flat_scale 0 (1/2)), Render 1]
   \<and> trace (apply_event flat_scale (Advance 0) (exec flat_scale
     [Tick 0 [\<lparr>sn_note = 60, sn_begin = 1, sn_length = 1/2\<rparr>, \<lparr>sn_note = 62, sn_begin = 2, sn_length = 1/2\<rparr>],
      Advance 0, Advance 0,
      Tick 1000 [\<lparr>sn_note = 60, sn_begin = 1, sn_length = 1/2\<rparr>, \<lparr>sn_note = 62, sn_begin = 2, sn_length = 1/2\<rparr>],
      Woken, Advance 0, Advance 0, Advance 0, TimedOut, Advance 0, Advance 0, Advance 0,
      Tick 1300 [\<lparr>sn_note = 64, sn_begin = 3, sn_length = 1/4\<rparr>], Woken, Advance 0] Synth_new))
     = [Render 0, Play 0 (createBuffer_bytes flat_scale 0 (1/2)), Render 1, Render 1]
   \<and> m_soundData (apply_event flat_scale (Advance 0) (exec flat_scale
     [Tick 0 [\<lparr>sn_note = 60, sn_begin = 1, sn_length = 1/2\<rparr>, \<lparr>sn_note = 62, sn_begin = 2, sn_length = 1/2\<rparr>],
      Advance 0, Advance 0,
      Tick 1000 [\<lparr>sn_note = 60, sn_begin = 1, sn_length = 1/2\<rparr>, \<lparr>sn_note = 62, sn_begin = 2, sn_length = 1/2\<rparr>],
      Woken, Advance 0, Advance 0, Advance 0, TimedOut, Advance 0, Advance 0, Advance 0,
      Tick 1300 [\<lparr>sn_note = 64, sn_begin = 3, sn_length = 1/4\<rparr>], Woken, Advance 0] Synth_new)) ! nat 0
     = createBuffer_bytes flat_scale 0 (1/2)"
proof -
  define evs where "evs =
     [Tick 0 [\<lparr>sn_note = 60, sn_begin = 1, sn_length = 1/2\<rparr>, \<lparr>sn_note = 62, sn_begin = 2, sn_length = 1/2\<rparr>],
      Advance 0, Advance 0,
      Tick 1000 [\<lparr>sn_note = 60, sn_begin = 1, sn_length = 1/2\<rparr>, \<lparr>sn_note = 62, sn_begin = 2, sn_length = 1/2\<rparr>],
      Woken, Advance 0, Advance 0, Advance 0, TimedOut, Advance 0, Advance 0, Advance 0,
      Tick 1300 [\<lparr>sn_note = 64, sn_begin = 3, sn_length = 1/4\<rparr>], Woken, Advance 0]"
  define s where "s = exec flat_scale evs Synth_new"
  have t: "trace s = [Render 0, Play 0 (createBuffer_bytes flat_scale 0 (1/2)), Render 1]"
    and d: "m_soundData s ! nat 0 = createBuffer_bytes flat_scale 0 (1/2)"
    and t': "trace (apply_event flat_scale (Advance 0) s)
       = [Render 0, Play 0 (createBuffer_bytes flat_scale 0 (1/2)), Render 1, Render 1]"
    unfolding s_def evs_def
    by (simp_all add: exec_Cons exec_Nil tick_def stop_def calcNext_def createBuffer_def run_onset_def
       Let_def Synth_new_def isRunning_def c_rem_def ULONG_MAX_def)
  have l: "last_played None (trace s) = Some 0" by (simp add: t)
  have p: "plays (trace (apply_event flat_scale (Advance 0) s)) = plays (trace s)"
    by (simp only: t t') simp
  from C5_buffer_rotation [of flat_scale evs 0 "Advance 0"] l p
  have "m_soundData (apply_event flat_scale (Advance 0) s) ! nat 0 = m_soundData s ! nat 0"
    unfolding s_def by blast
  with t t' d show ?thesis
    unfolding s_def evs_def by (simp only:) 
qed

end
